theory Spec2Isabelle
  imports Complex_Main "HOL-Library.Product_Lexorder"
begin

section \<open>Python strings and the Unicode tables\<close>

text \<open>
  A Python \<open>str\<close> is a sequence of Unicode code points, so \<open>len\<close> counts code points.
  A text is a list of code points; \<open>ustr\<close> writes an ASCII literal.
\<close>

type_synonym codepoint = nat
type_synonym str = "codepoint list"

definition ustr :: "string \<Rightarrow> str" where
  "ustr s = map of_char s"

text \<open>
  The Unicode character database belongs to the Python runtime, not to the repository.
  It is a parameter of the model. CPython answers for code points below 128 from fixed
  ASCII tables and only consults the database above; the functions below do the same,
  so every result on ASCII text is independent of the parameter.
  Case mappings are taken per character (the one context rule of \<open>str.lower\<close>, the
  final sigma, concerns a non-ASCII letter and is left to the table).
\<close>

record unicode_db =
  nfkd_tbl :: "str \<Rightarrow> str"
  combining_tbl :: "codepoint \<Rightarrow> bool"
  lower_tbl :: "codepoint \<Rightarrow> str"
  upper_tbl :: "codepoint \<Rightarrow> str"
  isalnum_tbl :: "codepoint \<Rightarrow> bool"
  isspace_tbl :: "codepoint \<Rightarrow> bool"
  isdecimal_tbl :: "codepoint \<Rightarrow> bool"

definition ascii_whitespace :: "codepoint list" where
  "ascii_whitespace = [9, 10, 11, 12, 13, 28, 29, 30, 31, 32]"

definition py_isspace :: "unicode_db \<Rightarrow> codepoint \<Rightarrow> bool" where
  "py_isspace U c = (if c < 128 then List.member ascii_whitespace c else isspace_tbl U c)"

definition py_isalnum :: "unicode_db \<Rightarrow> codepoint \<Rightarrow> bool" where
  "py_isalnum U c =
     (if c < 128 then (48 \<le> c \<and> c \<le> 57) \<or> (65 \<le> c \<and> c \<le> 90) \<or> (97 \<le> c \<and> c \<le> 122)
      else isalnum_tbl U c)"

definition py_isdecimal :: "unicode_db \<Rightarrow> codepoint \<Rightarrow> bool" where
  "py_isdecimal U c = (if c < 128 then 48 \<le> c \<and> c \<le> 57 else isdecimal_tbl U c)"

definition py_combining :: "unicode_db \<Rightarrow> codepoint \<Rightarrow> bool" where
  "py_combining U c = (if c < 128 then False else combining_tbl U c)"

definition lower_cp :: "unicode_db \<Rightarrow> codepoint \<Rightarrow> str" where
  "lower_cp U c =
     (if c < 128 then (if 65 \<le> c \<and> c \<le> 90 then [c + 32] else [c]) else lower_tbl U c)"

definition upper_cp :: "unicode_db \<Rightarrow> codepoint \<Rightarrow> str" where
  "upper_cp U c =
     (if c < 128 then (if 97 \<le> c \<and> c \<le> 122 then [c - 32] else [c]) else upper_tbl U c)"

definition str_lower :: "unicode_db \<Rightarrow> str \<Rightarrow> str" where
  "str_lower U s = concat (map (lower_cp U) s)"

definition str_upper :: "unicode_db \<Rightarrow> str \<Rightarrow> str" where
  "str_upper U s = concat (map (upper_cp U) s)"

definition str_strip :: "unicode_db \<Rightarrow> str \<Rightarrow> str" where
  "str_strip U s = rev (dropWhile (py_isspace U) (rev (dropWhile (py_isspace U) s)))"

definition normalize_NFKD :: "unicode_db \<Rightarrow> str \<Rightarrow> str" where
  "normalize_NFKD U s = (if list_all (\<lambda>c. c < 128) s then s else nfkd_tbl U s)"

text \<open>A database with nothing beyond ASCII, for evaluating the model on ASCII text.\<close>

definition ascii_db :: unicode_db where
  "ascii_db = \<lparr> nfkd_tbl = (\<lambda>s. s), combining_tbl = (\<lambda>c. False),
     lower_tbl = (\<lambda>c. [c]), upper_tbl = (\<lambda>c. [c]), isalnum_tbl = (\<lambda>c. False),
     isspace_tbl = (\<lambda>c. False), isdecimal_tbl = (\<lambda>c. False) \<rparr>"

section \<open>The database\<close>

text \<open>
  The three tables the engine reads, each a list of rows in rowid order. Of the columns of
  \<open>ccam_codes\<close> the model keeps those the modelled functions read or decide on; the
  others are only copied into results. \<open>icr_public\<close> is a REAL that is only compared and
  negated, which is exact on floats, so it is a rational here. \<open>None\<close> is SQL NULL.
  The builder, the only writer of \<open>associations\<close>, stores a string in every column.
\<close>

record ccam_row =
  cc_code :: str
  cc_label :: str
  cc_label_normalized :: "str option"
  cc_icr_public :: "rat option"
  cc_chapter_num :: "str option"
  cc_date_end :: "str option"

record assoc_row =
  a_code :: str
  a_associated_code :: str
  a_association_type :: str
  a_activity :: str

datatype confidence = Verified | SameChapter | CrossChapter

record freq_row =
  fa_code :: str
  fa_associated_code :: str
  fa_label :: "str option"
  fa_icr_public :: "rat option"
  fa_confidence :: confidence
  fa_rank :: int

record database =
  ccam_codes :: "ccam_row list"
  associations :: "assoc_row list"
  frequent_associations :: "freq_row list"

definition get_row :: "database \<Rightarrow> str \<Rightarrow> ccam_row option" where
  \<comment> \<open>\<open>SELECT ... FROM ccam_codes WHERE code = ?\<close> followed by \<open>fetchone()\<close>\<close>
  "get_row db c = find (\<lambda>r. cc_code r = c) (ccam_codes db)"

definition select_assoc :: "database \<Rightarrow> str \<Rightarrow> str \<Rightarrow> assoc_row list" where
  \<comment> \<open>\<open>SELECT association_type, activity FROM associations WHERE code = ? AND associated_code = ?\<close>\<close>
  "select_assoc db c1 c2 =
     filter (\<lambda>a. a_code a = c1 \<and> a_associated_code a = c2) (associations db)"

section \<open>Compatibility checker\<close>

datatype issue =
    UnknownCode str
  | ExpiredCode str str
  | HasAssociation str str str str
  | Ok

text \<open>
  \<open>UnknownCode code\<close>, \<open>ExpiredCode code date_end\<close>,
  \<open>HasAssociation code1 code2 association_type activity\<close>; the message of an issue is
  built from the same values and is left out.
\<close>

definition pair_issues :: "database \<Rightarrow> str \<Rightarrow> str \<Rightarrow> issue list" where
  "pair_issues db code1 code2 =
     (let assoc12 = select_assoc db code1 code2;
          assoc21 = select_assoc db code2 code1
      in if assoc12 \<noteq> [] \<or> assoc21 \<noteq> []
         then map (\<lambda>a. HasAssociation code1 code2 (a_association_type a) (a_activity a)) assoc12
         else [])"

definition code_issues :: "database \<Rightarrow> str list \<Rightarrow> nat \<Rightarrow> str \<Rightarrow> issue list" where
  "code_issues db codes i code1 =
     (case get_row db code1 of
        None \<Rightarrow> [UnknownCode code1]
      | Some row \<Rightarrow>
          (case cc_date_end row of
             None \<Rightarrow> []
           | Some d \<Rightarrow> if d \<noteq> [] then [ExpiredCode code1 d] else [])
          @ concat (map (\<lambda>(j, code2). if i \<ge> j then [] else pair_issues db code1 code2)
                        (enumerate 0 codes)))"

definition check_compatibility :: "unicode_db \<Rightarrow> database \<Rightarrow> str list \<Rightarrow> issue list" where
  "check_compatibility U db codes0 =
     (let codes = map (str_upper U) codes0;
          issues = concat (map (\<lambda>(i, code1). code_issues db codes i code1) (enumerate 0 codes))
      in if issues = [] then [Ok] else issues)"

section \<open>Text normalizer\<close>

datatype error = AttributeError | OperationalError

text \<open>
  \<open>AttributeError\<close> is what \<open>query.lower()\<close> raises when \<open>query\<close> is \<open>None\<close>;
  \<open>OperationalError\<close> is what \<open>sqlite3\<close> raises when it cannot prepare or run a statement.
  A query is a \<open>str option\<close>: \<open>None\<close> is Python's \<open>None\<close>.
\<close>

definition strip_accents :: "unicode_db \<Rightarrow> str \<Rightarrow> str" where
  "strip_accents U text =
     (if text = [] then []
      else filter (\<lambda>c. \<not> py_combining U c) (normalize_NFKD U text))"

definition re_word :: "unicode_db \<Rightarrow> codepoint \<Rightarrow> bool" where
  \<comment> \<open>the class \<open>\w\<close> of a Unicode pattern: alphanumeric, or the underscore\<close>
  "re_word U c = (py_isalnum U c \<or> c = 95)"

definition re_sub_nonword :: "unicode_db \<Rightarrow> str \<Rightarrow> str" where
  \<comment> \<open>\<open>re.sub(r'[^\w\s]', ' ', text)\<close>\<close>
  "re_sub_nonword U text =
     map (\<lambda>c. if \<not> re_word U c \<and> \<not> py_isspace U c then 32 else c) text"

fun collapse_ws :: "(codepoint \<Rightarrow> bool) \<Rightarrow> bool \<Rightarrow> str \<Rightarrow> str" where
  "collapse_ws ws in_run [] = []"
| "collapse_ws ws in_run (c # cs) =
     (if ws c then (if in_run then collapse_ws ws True cs else 32 # collapse_ws ws True cs)
      else c # collapse_ws ws False cs)"

definition re_sub_spaces :: "unicode_db \<Rightarrow> str \<Rightarrow> str" where
  \<comment> \<open>\<open>re.sub(r'\s+', ' ', text)\<close>: each maximal run of whitespace becomes one space\<close>
  "re_sub_spaces U text = collapse_ws (py_isspace U) False text"

fun split_aux :: "(codepoint \<Rightarrow> bool) \<Rightarrow> str \<Rightarrow> str \<Rightarrow> str list" where
  "split_aux ws cur [] = (if cur = [] then [] else [cur])"
| "split_aux ws cur (c # cs) =
     (if ws c then (if cur = [] then split_aux ws [] cs else cur # split_aux ws [] cs)
      else split_aux ws (cur @ [c]) cs)"

definition str_split :: "unicode_db \<Rightarrow> str \<Rightarrow> str list" where
  \<comment> \<open>\<open>text.split()\<close>: the maximal runs of non-whitespace\<close>
  "str_split U text = split_aux (py_isspace U) [] text"

definition normalize_query :: "unicode_db \<Rightarrow> str option \<Rightarrow> error + str list" where
  "normalize_query U query =
     (case query of
        None \<Rightarrow> Inl AttributeError
      | Some q \<Rightarrow>
          (let text = strip_accents U (str_strip U (str_lower U q));
               text = re_sub_nonword U text;
               tokens = str_split U text
           in Inr (if length tokens > 1 then filter (\<lambda>t. length t > 2) tokens else tokens)))"

definition normalize_for_search :: "unicode_db \<Rightarrow> str option \<Rightarrow> str" where
  "normalize_for_search U text =
     (case text of
        None \<Rightarrow> []
      | Some t \<Rightarrow>
          if t = [] then []
          else (let text = strip_accents U (str_lower U t);
                    text = re_sub_nonword U text;
                    text = re_sub_spaces U text
                in str_strip U text))"

section \<open>Search resolver\<close>

text \<open>
  The FTS5 index is SQLite's. It is a parameter: given a MATCH expression and the content
  table it returns the matching rows, best rank first, or \<open>None\<close> when it rejects the
  expression (an FTS5 syntax error, which \<open>execute\<close> raises as \<open>OperationalError\<close>).
  The WHERE clause, the LIMIT, the LIKE operator and the order of the three statements are
  the repository's and are modelled. The statements a call runs on its cursor are
  recorded in order, each with what it fetched or raised. The column \<open>tarif_base\<close> that
  the statements read is added to \<open>ccam_codes\<close> outside these sources and is taken to
  exist, as is the table \<open>frequent_associations\<close>.
\<close>

type_synonym fts5 = "str \<Rightarrow> ccam_row list \<Rightarrow> ccam_row list option"

datatype tier = Conjunctive | Disjunctive | Substring

record search_outcome =
  executed :: "(tier \<times> (error + ccam_row list)) list"
  returned :: "error + (ccam_row \<times> nat) list"

fun str_join :: "str \<Rightarrow> str list \<Rightarrow> str" where
  "str_join sep [] = []"
| "str_join sep [t] = t"
| "str_join sep (t # ts) = t @ sep @ str_join sep ts"

definition sql_limit :: "int \<Rightarrow> 'a list \<Rightarrow> 'a list" where
  \<comment> \<open>\<open>LIMIT n\<close>: a negative \<open>n\<close> is no limit\<close>
  "sql_limit n xs = (if n < 0 then xs else take (nat n) xs)"

definition like_fold :: "codepoint \<Rightarrow> codepoint" where
  "like_fold c = (if 97 \<le> c \<and> c \<le> 122 then c - 32 else c)"

fun like :: "str \<Rightarrow> str \<Rightarrow> bool" where
  "like [] [] = True"
| "like [] (c # cs) = False"
| "like (p # ps) [] = (p = 37 \<and> like ps [])"
| "like (p # ps) (c # cs) =
     (if p = 37 then like ps (c # cs) \<or> like (p # ps) cs
      else if p = 95 then like ps cs
      else like_fold p = like_fold c \<and> like ps cs)"

definition sql_like :: "str option \<Rightarrow> str \<Rightarrow> bool" where
  \<comment> \<open>\<open>value LIKE pattern\<close>: \<open>%\<close> any run, \<open>_\<close> any one character, ASCII case folded; NULL never matches\<close>
  "sql_like v pat = (case v of None \<Rightarrow> False | Some s \<Rightarrow> like pat s)"

definition active_filter :: "bool \<Rightarrow> ccam_row \<Rightarrow> bool" where
  \<comment> \<open>\<open>AND cc.date_end IS NULL\<close> when \<open>active_only\<close>, nothing otherwise\<close>
  "active_filter active_only r = (if active_only then cc_date_end r = None else True)"

definition fts_statement :: "fts5 \<Rightarrow> database \<Rightarrow> str \<Rightarrow> int \<Rightarrow> bool \<Rightarrow> error + ccam_row list" where
  \<comment> \<open>strategies 1 and 2:
      \<open>FROM ccam_fts JOIN ccam_codes cc ... WHERE ccam_fts.label_normalized MATCH ?
      {active_filter} ORDER BY ccam_fts.rank LIMIT ?\<close>\<close>
  "fts_statement fts db expr limit active_only =
     (case fts expr (ccam_codes db) of
        None \<Rightarrow> Inl OperationalError
      | Some rs \<Rightarrow> Inr (sql_limit limit (filter (active_filter active_only) rs)))"

definition like_statement :: "database \<Rightarrow> str \<Rightarrow> int \<Rightarrow> bool \<Rightarrow> error + ccam_row list" where
  \<comment> \<open>strategy 3: \<open>FROM ccam_codes WHERE label_normalized LIKE ? {active_filter} LIMIT ?\<close>.
      This statement gives \<open>ccam_codes\<close> no alias, and the text of the filter is
      \<open>AND cc.date_end IS NULL\<close>: with \<open>active_only\<close> it names a column of a table
      \<open>cc\<close> the statement does not have, and \<open>execute\<close> raises.\<close>
  "like_statement db pattern limit active_only =
     (if active_only then Inl OperationalError
      else Inr (sql_limit limit
             (filter (\<lambda>r. sql_like (cc_label_normalized r) pattern) (ccam_codes db))))"

definition assoc_count :: "database \<Rightarrow> str \<Rightarrow> nat" where
  "assoc_count db c =
     length (filter (\<lambda>a. a_code a = c) (associations db))
     + length (filter (\<lambda>f. fa_code f = c) (frequent_associations db))"

definition enrich :: "database \<Rightarrow> ccam_row list \<Rightarrow> (ccam_row \<times> nat) list" where
  \<comment> \<open>each row with its \<open>assoc_count\<close>\<close>
  "enrich db results = map (\<lambda>r. (r, assoc_count db (cc_code r))) results"

definition like_fallback ::
  "database \<Rightarrow> str list \<Rightarrow> int \<Rightarrow> bool \<Rightarrow> (tier \<times> (error + ccam_row list)) list
     \<Rightarrow> ccam_row list \<Rightarrow> search_outcome" where
  \<comment> \<open>from \<open>if not results:\<close> of strategy 3 to the end of \<open>search\<close>\<close>
  "like_fallback db tokens limit active_only ex results =
     (if results = []
      then (let like_pattern = ustr ''%'' @ str_join (ustr ''%'') tokens @ ustr ''%'';
                r3 = like_statement db like_pattern limit active_only;
                ex3 = ex @ [(Substring, r3)]
            in case r3 of
                 Inl e \<Rightarrow> \<lparr> executed = ex3, returned = Inl e \<rparr>
               | Inr results3 \<Rightarrow> \<lparr> executed = ex3, returned = Inr (enrich db results3) \<rparr>)
      else \<lparr> executed = ex, returned = Inr (enrich db results) \<rparr>)"

definition search_run ::
  "unicode_db \<Rightarrow> fts5 \<Rightarrow> database \<Rightarrow> str option \<Rightarrow> int \<Rightarrow> bool \<Rightarrow> search_outcome" where
  "search_run U fts db query limit active_only =
     (case normalize_query U query of
        Inl e \<Rightarrow> \<lparr> executed = [], returned = Inl e \<rparr>
      | Inr tokens \<Rightarrow>
          if tokens = [] then \<lparr> executed = [], returned = Inr [] \<rparr>
          else
            (let fts_query = str_join (ustr '' '') tokens;
                 r1 = fts_statement fts db fts_query limit active_only;
                 ex1 = [(Conjunctive, r1)]
             in case r1 of
                  Inl e \<Rightarrow> \<lparr> executed = ex1, returned = Inl e \<rparr>
                | Inr results1 \<Rightarrow>
                    if results1 = [] \<and> length tokens > 1
                    then (let or_query = str_join (ustr '' OR '') tokens;
                              r2 = fts_statement fts db or_query limit active_only;
                              ex2 = ex1 @ [(Disjunctive, r2)]
                          in case r2 of
                               Inl e \<Rightarrow> \<lparr> executed = ex2, returned = Inl e \<rparr>
                             | Inr results2 \<Rightarrow>
                                 like_fallback db tokens limit active_only ex2 results2)
                    else like_fallback db tokens limit active_only ex1 results1))"

definition search ::
  "unicode_db \<Rightarrow> fts5 \<Rightarrow> database \<Rightarrow> str option \<Rightarrow> int \<Rightarrow> bool
     \<Rightarrow> error + (ccam_row \<times> nat) list" where
  \<comment> \<open>what the call returns or raises\<close>
  "search U fts db query limit active_only =
     returned (search_run U fts db query limit active_only)"

section \<open>Association classifier\<close>

record code_info =
  ci_label :: str
  ci_active :: bool
  ci_chapter :: "str option"
  ci_icr_public :: "rat option"

definition load_codes :: "database \<Rightarrow> (str \<rightharpoonup> code_info)" where
  \<comment> \<open>the dict \<open>codes\<close> of \<open>load_ccam_data\<close>: a later row of the same code overwrites\<close>
  "load_codes db =
     map_of (rev (map (\<lambda>r. (cc_code r,
        \<lparr> ci_label = cc_label r, ci_active = (cc_date_end r = None),
          ci_chapter = cc_chapter_num r, ci_icr_public = cc_icr_public r \<rparr>)) (ccam_codes db)))"

definition load_official :: "database \<Rightarrow> str \<Rightarrow> str set" where
  \<comment> \<open>\<open>official.get(source_code, set())\<close> on the dict of sets of \<open>load_ccam_data\<close>\<close>
  "load_official db source_code =
     set (map a_associated_code (filter (\<lambda>a. a_code a = source_code) (associations db)))"

record candidate =
  cand_code :: str
  cand_label :: "str option"

record valid_assoc =
  va_code :: str
  va_label :: str
  va_icr_public :: "rat option"
  va_confidence :: confidence

datatype verdict = SelfReference | NotFound | Expired | Keep valid_assoc

definition truthy :: "str option \<Rightarrow> bool" where
  \<comment> \<open>Python's truth value of a text that may be \<open>None\<close>\<close>
  "truthy v = (case v of None \<Rightarrow> False | Some s \<Rightarrow> s \<noteq> [])"

definition classify ::
  "(str \<rightharpoonup> code_info) \<Rightarrow> code_info \<Rightarrow> str set \<Rightarrow> str \<Rightarrow> candidate \<Rightarrow> verdict" where
  "classify codes source_info official_set source_code assoc =
     (let assoc_code = cand_code assoc in
      if assoc_code = source_code then SelfReference
      else case codes assoc_code of
             None \<Rightarrow> NotFound
           | Some assoc_info \<Rightarrow>
               if \<not> ci_active assoc_info then Expired
               else Keep \<lparr> va_code = assoc_code,
                      va_label = (case cand_label assoc of
                                    Some l \<Rightarrow> l | None \<Rightarrow> ci_label assoc_info),
                      va_icr_public = ci_icr_public assoc_info,
                      va_confidence =
                        (if assoc_code \<in> official_set then Verified
                         else if truthy (ci_chapter source_info) \<and> truthy (ci_chapter assoc_info)
                                 \<and> ci_chapter source_info = ci_chapter assoc_info
                              then SameChapter
                         else CrossChapter) \<rparr>)"

definition kept :: "verdict list \<Rightarrow> valid_assoc list" where
  "kept vs = concat (map (\<lambda>v. case v of Keep a \<Rightarrow> [a] | _ \<Rightarrow> []) vs)"

fun confidence_order :: "confidence \<Rightarrow> nat" where
  "confidence_order Verified = 0"
| "confidence_order SameChapter = 1"
| "confidence_order CrossChapter = 2"

definition sort_valid :: "valid_assoc list \<Rightarrow> valid_assoc list" where
  \<comment> \<open>\<open>list.sort(key=...)\<close> is stable, as \<open>sort_key\<close> is\<close>
  "sort_valid xs =
     sort_key (\<lambda>x. (confidence_order (va_confidence x),
                     - (case va_icr_public x of None \<Rightarrow> 0 | Some v \<Rightarrow> v))) xs"

fun dict_set :: "'k \<Rightarrow> 'v \<Rightarrow> ('k \<times> 'v) list \<Rightarrow> ('k \<times> 'v) list" where
  "dict_set k v [] = [(k, v)]"
| "dict_set k v ((k', v') # d) = (if k' = k then (k, v) # d else (k', v') # dict_set k v d)"

definition valid_assocs :: "database \<Rightarrow> code_info \<Rightarrow> str \<Rightarrow> candidate list \<Rightarrow> valid_assoc list" where
  "valid_assocs db source_info source_code assoc_list =
     kept (map (classify (load_codes db) source_info (load_official db source_code) source_code)
               assoc_list)"

definition validate_step ::
  "database \<Rightarrow> (str \<times> valid_assoc list) list \<Rightarrow> str \<times> candidate list
     \<Rightarrow> (str \<times> valid_assoc list) list" where
  \<comment> \<open>the body of the loop over \<open>scraped.items()\<close>\<close>
  "validate_step db =
     (\<lambda>validated (source_code, assoc_list).
        case load_codes db source_code of
          None \<Rightarrow> validated
        | Some source_info \<Rightarrow>
            (let valid = valid_assocs db source_info source_code assoc_list
             in if valid \<noteq> [] then dict_set source_code (sort_valid valid) validated
                else validated))"

definition validate :: "database \<Rightarrow> (str \<times> candidate list) list \<Rightarrow> (str \<times> valid_assoc list) list" where
  "validate db scraped = foldl (validate_step db) [] scraped"

text \<open>
  \<open>scraped\<close> and \<open>validated\<close> are JSON objects read in key order; the statistics and the
  report of \<open>validate\<close> say which branch each candidate took, as \<open>verdict\<close> does.
\<close>

section \<open>Integration into the database\<close>

definition insert_or_ignore :: "freq_row \<Rightarrow> freq_row list \<Rightarrow> freq_row list" where
  \<comment> \<open>\<open>INSERT OR IGNORE\<close> under \<open>PRIMARY KEY (code, associated_code)\<close>\<close>
  "insert_or_ignore r tbl =
     (if list_ex (\<lambda>x. fa_code x = fa_code r \<and> fa_associated_code x = fa_associated_code r) tbl
      then tbl else tbl @ [r])"

definition freq_row_of :: "str \<Rightarrow> nat \<Rightarrow> valid_assoc \<Rightarrow> freq_row" where
  \<comment> \<open>the values of one INSERT: \<open>assoc.get("label")\<close> is present in what \<open>validate\<close> wrote\<close>
  "freq_row_of source_code rank assoc =
     \<lparr> fa_code = source_code, fa_associated_code = va_code assoc,
       fa_label = Some (va_label assoc), fa_icr_public = va_icr_public assoc,
       fa_confidence = va_confidence assoc, fa_rank = int rank \<rparr>"

definition insert_list :: "str \<Rightarrow> valid_assoc list \<Rightarrow> freq_row list \<Rightarrow> freq_row list" where
  \<comment> \<open>\<open>for rank, assoc in enumerate(assoc_list, 1)\<close>\<close>
  "insert_list source_code assoc_list tbl =
     foldl (\<lambda>t (rank, assoc). insert_or_ignore (freq_row_of source_code rank assoc) t)
           tbl (enumerate 1 assoc_list)"

definition integrate :: "(str \<times> valid_assoc list) list \<Rightarrow> database \<Rightarrow> database" where
  \<comment> \<open>the table is dropped and created empty, then filled\<close>
  "integrate validated db =
     db \<lparr> frequent_associations :=
            foldl (\<lambda>t (source_code, assoc_list). insert_list source_code assoc_list t)
                  [] validated \<rparr>"

section \<open>Billing plan assembler\<close>

record official_item =
  oi_code :: str
  oi_label :: "str option"
  oi_icr_public :: "rat option"
  oi_date_end :: "str option"
  oi_expired :: bool

record frequent_item =
  fi_code :: str
  fi_label :: "str option"
  fi_icr_public :: "rat option"
  fi_confidence :: confidence
  fi_rank :: int

record billing_plan =
  main_code :: ccam_row
  complementary_gestures :: "official_item list"
  anesthesia_codes :: "official_item list"
  plan_frequent_associations :: "frequent_item list"

definition get_code :: "unicode_db \<Rightarrow> database \<Rightarrow> str \<Rightarrow> ccam_row option" where
  "get_code U db c = get_row db (str_upper U c)"

definition coalesce0 :: "rat option \<Rightarrow> rat" where
  "coalesce0 v = (case v of None \<Rightarrow> 0 | Some x \<Rightarrow> x)"

definition official_rows :: "database \<Rightarrow> str \<Rightarrow> assoc_row list" where
  \<comment> \<open>the rows of \<open>associations\<close> for \<open>code\<close>, in the ORDER BY of the statement: gestures first,
      then \<open>icr_public\<close> of the joined row descending. \<open>code\<close> is the primary key of
      \<open>ccam_codes\<close>, so the LEFT JOIN finds at most one row: \<open>get_row\<close>.\<close>
  "official_rows db c =
     sort_key (\<lambda>a. (if a_association_type a = ustr ''complementary_gesture'' then 0::nat else 1,
                     - coalesce0 (case get_row db (a_associated_code a) of
                                    None \<Rightarrow> None | Some cc \<Rightarrow> cc_icr_public cc)))
              (filter (\<lambda>a. a_code a = c) (associations db))"

definition official_item_of :: "database \<Rightarrow> assoc_row \<Rightarrow> official_item" where
  "official_item_of db a =
     (let cc = get_row db (a_associated_code a);
          date_end = (case cc of None \<Rightarrow> None | Some r \<Rightarrow> cc_date_end r)
      in \<lparr> oi_code = a_associated_code a,
           oi_label = map_option cc_label cc,
           oi_icr_public = (case cc of None \<Rightarrow> None | Some r \<Rightarrow> cc_icr_public r),
           oi_date_end = date_end,
           oi_expired = truthy date_end \<rparr>)"

definition frequent_rows :: "database \<Rightarrow> str \<Rightarrow> freq_row list" where
  \<comment> \<open>\<open>WHERE fa.code = ? ORDER BY fa.rank\<close>\<close>
  "frequent_rows db c = sort_key fa_rank (filter (\<lambda>f. fa_code f = c) (frequent_associations db))"

definition frequent_item_of :: "freq_row \<Rightarrow> frequent_item" where
  "frequent_item_of f =
     \<lparr> fi_code = fa_associated_code f, fi_label = fa_label f, fi_icr_public = fa_icr_public f,
       fi_confidence = fa_confidence f, fi_rank = fa_rank f \<rparr>"

definition get_billing_plan :: "unicode_db \<Rightarrow> database \<Rightarrow> str \<Rightarrow> billing_plan option" where
  "get_billing_plan U db code0 =
     (let c = str_upper U code0 in
      case get_code U db c of
        None \<Rightarrow> None
      | Some main \<Rightarrow>
          (let official = official_rows db c;
               official_codes = set (map a_associated_code official);
               anesthesia = map (official_item_of db)
                 (filter (\<lambda>a. a_association_type a = ustr ''complementary_anesthesia'') official);
               gestures = map (official_item_of db)
                 (filter (\<lambda>a. a_association_type a \<noteq> ustr ''complementary_anesthesia'') official);
               frequent = map frequent_item_of
                 (filter (\<lambda>f. fa_associated_code f \<notin> official_codes) (frequent_rows db c))
           in Some \<lparr> main_code = main, complementary_gestures = gestures,
                     anesthesia_codes = anesthesia, plan_frequent_associations = frequent \<rparr>))"

text \<open>
  SQL leaves the order of rows with equal sort keys open; \<open>sort_key\<close> keeps them in table
  order. No property below depends on the order among equal keys.
\<close>

section \<open>Catalog builder\<close>

text \<open>
  A row of the sheet, reduced to the cells the builder's code lines and associations
  depend on. A cell is \<open>None\<close> when empty, else the text \<open>str(val)\<close>; \<open>icr_public_cell\<close>
  is already the result of \<open>safe_float\<close>. The chapter table and the columns that are only
  copied are left out.
\<close>

record sheet_row =
  n_cells :: nat
  line_type_cell :: "str option"
  code_sub_cell :: "str option"
  text_cell :: "str option"
  chap_num_cell :: "str option"
  icr_public_cell :: "rat option"
  gestures_text_cell :: "str option"
  gestures_act123_cell :: "str option"
  gestures_act4_cell :: "str option"
  gestures_act5_cell :: "str option"
  anesthesia_cell :: "str option"
  date_end_cell :: "str option"

record builder_state =
  bs_db :: database
  current_chap_num :: "str option"

definition safe_str :: "unicode_db \<Rightarrow> str option \<Rightarrow> str option" where
  "safe_str U val =
     (case val of
        None \<Rightarrow> None
      | Some s \<Rightarrow> if str_strip U s \<noteq> [] then Some (str_strip U s) else None)"

definition upper_AZ :: "codepoint \<Rightarrow> bool" where
  "upper_AZ c = (65 \<le> c \<and> c \<le> 90)"

definition ccam_at :: "unicode_db \<Rightarrow> str \<Rightarrow> bool" where
  \<comment> \<open>the pattern \<open>[A-Z]{4}\d{3}\<close> matches at the start of the text\<close>
  "ccam_at U s =
     (7 \<le> length s \<and> list_all upper_AZ (take 4 s) \<and> list_all (py_isdecimal U) (take 3 (drop 4 s)))"

definition CCAM_CODE_RE :: "unicode_db \<Rightarrow> str \<Rightarrow> bool" where
  \<comment> \<open>\<open>^[A-Z]{4}\d{3}$\<close>: \<open>$\<close> also matches before one final newline\<close>
  "CCAM_CODE_RE U s = (ccam_at U s \<and> (length s = 7 \<or> (length s = 8 \<and> s ! 7 = 10)))"

function findall_ccam :: "unicode_db \<Rightarrow> str \<Rightarrow> str list" where
  "findall_ccam U s =
     (if s = [] then []
      else if ccam_at U s then take 7 s # findall_ccam U (drop 7 s)
      else findall_ccam U (tl s))"
  by pat_completeness auto
termination
  by (relation "measure (\<lambda>(U, s). length s)") auto

definition insert_assoc_or_ignore :: "assoc_row \<Rightarrow> assoc_row list \<Rightarrow> assoc_row list" where
  \<comment> \<open>\<open>INSERT OR IGNORE\<close> under \<open>PRIMARY KEY (code, associated_code, activity)\<close>\<close>
  "insert_assoc_or_ignore r tbl =
     (if list_ex (\<lambda>x. a_code x = a_code r \<and> a_associated_code x = a_associated_code r
                      \<and> a_activity x = a_activity r) tbl
      then tbl else tbl @ [r])"

definition insert_or_replace :: "ccam_row \<Rightarrow> ccam_row list \<Rightarrow> ccam_row list" where
  \<comment> \<open>\<open>INSERT OR REPLACE\<close> under \<open>code TEXT PRIMARY KEY\<close>: the old row goes, the new one gets a fresh rowid\<close>
  "insert_or_replace r tbl = filter (\<lambda>x. cc_code x \<noteq> cc_code r) tbl @ [r]"

definition add_gestures ::
  "unicode_db \<Rightarrow> str \<Rightarrow> str \<Rightarrow> str option \<Rightarrow> assoc_row list \<Rightarrow> assoc_row list" where
  "add_gestures U c activity cell tbl =
     (case safe_str U cell of
        None \<Rightarrow> tbl
      | Some gesture_val \<Rightarrow>
          foldl (\<lambda>t assoc_code.
                   if assoc_code \<noteq> c
                   then insert_assoc_or_ignore
                          \<lparr> a_code = c, a_associated_code = assoc_code,
                            a_association_type = ustr ''complementary_gesture'',
                            a_activity = activity \<rparr> t
                   else t)
                tbl (findall_ccam U gesture_val))"

definition add_anesthesia :: "unicode_db \<Rightarrow> str \<Rightarrow> str option \<Rightarrow> assoc_row list \<Rightarrow> assoc_row list" where
  "add_anesthesia U c cell tbl =
     (case safe_str U cell of
        None \<Rightarrow> tbl
      | Some anesthesia_val \<Rightarrow>
          foldl (\<lambda>t anest_code.
                   if anest_code \<noteq> c
                   then insert_assoc_or_ignore
                          \<lparr> a_code = c, a_associated_code = anest_code,
                            a_association_type = ustr ''complementary_anesthesia'',
                            a_activity = ustr ''anesthesia'' \<rparr> t
                   else t)
                tbl (findall_ccam U anesthesia_val))"

definition add_associations :: "unicode_db \<Rightarrow> str \<Rightarrow> sheet_row \<Rightarrow> assoc_row list \<Rightarrow> assoc_row list" where
  "add_associations U c row tbl =
     add_anesthesia U c (anesthesia_cell row)
       (add_gestures U c (ustr ''act5'') (gestures_act5_cell row)
       (add_gestures U c (ustr ''act4'') (gestures_act4_cell row)
       (add_gestures U c (ustr ''act123'') (gestures_act123_cell row)
       (add_gestures U c (ustr ''text'') (gestures_text_cell row) tbl))))"

definition skipped_line_type :: "str option \<Rightarrow> str option \<Rightarrow> bool" where
  \<comment> \<open>\<open>(not text or line_type not in ('L', 'LV', None)) and line_type in ('T', 'NT', 'M')\<close>\<close>
  "skipped_line_type text line_type =
     ((text = None \<or> \<not> List.member [Some (ustr ''L''), Some (ustr ''LV''), None] line_type)
      \<and> List.member [Some (ustr ''T''), Some (ustr ''NT''), Some (ustr ''M'')] line_type)"

definition process_row :: "unicode_db \<Rightarrow> builder_state \<Rightarrow> sheet_row \<Rightarrow> builder_state" where
  "process_row U st row =
     (if n_cells row < 52 then st
      else
        (let line_type = safe_str U (line_type_cell row);
             code_sub = safe_str U (code_sub_cell row);
             text = safe_str U (text_cell row);
             chap_num = safe_str U (chap_num_cell row);
             st1 = (if chap_num \<noteq> None then st \<lparr> current_chap_num := chap_num \<rparr> else st)
         in case code_sub of
              None \<Rightarrow> st1
            | Some c \<Rightarrow>
                if \<not> CCAM_CODE_RE U c then st1
                else if skipped_line_type text line_type then st1
                else case text of
                       None \<Rightarrow> st1
                     | Some label \<Rightarrow>
                         (let db = bs_db st1;
                              new = \<lparr> cc_code = c, cc_label = label,
                                      cc_label_normalized = Some (normalize_for_search U (Some label)),
                                      cc_icr_public = icr_public_cell row,
                                      cc_chapter_num = current_chap_num st1,
                                      cc_date_end = safe_str U (date_end_cell row) \<rparr>
                          in st1 \<lparr> bs_db := db
                                  \<lparr> ccam_codes := insert_or_replace new (ccam_codes db),
                                    associations := add_associations U c row (associations db) \<rparr> \<rparr>)))"

definition create_database :: database where
  "create_database = \<lparr> ccam_codes = [], associations = [], frequent_associations = [] \<rparr>"

definition parse_complementary_file :: "unicode_db \<Rightarrow> sheet_row list \<Rightarrow> database" where
  \<comment> \<open>the first row of the sheet is the header and is skipped\<close>
  "parse_complementary_file U sheet =
     bs_db (foldl (process_row U) \<lparr> bs_db = create_database, current_chap_num = None \<rparr>
                  (drop 1 sheet))"

section \<open>Example data\<close>

definition ex_A :: str where "ex_A = ustr ''AAAA001''"
definition ex_B :: str where "ex_B = ustr ''BBBB002''"
definition ex_C :: str where "ex_C = ustr ''CCCC003''"
definition ex_Z :: str where "ex_Z = ustr ''ZZZZ999''"

definition ex_row :: "str \<Rightarrow> ccam_row" where
  \<comment> \<open>an active catalog entry of chapter 01\<close>
  "ex_row c = \<lparr> cc_code = c, cc_label = ustr ''Acte test chirurgical'',
      cc_label_normalized = Some (ustr ''acte test chirurgical''),
      cc_icr_public = None, cc_chapter_num = Some (ustr ''01''), cc_date_end = None \<rparr>"

definition ex_gesture :: "str \<Rightarrow> str \<Rightarrow> str \<Rightarrow> assoc_row" where
  "ex_gesture c t act = \<lparr> a_code = c, a_associated_code = t,
      a_association_type = ustr ''complementary_gesture'', a_activity = act \<rparr>"

definition ex_db_reverse :: database where
  \<comment> \<open>both codes in the catalog, one declared gesture edge from B to A\<close>
  "ex_db_reverse = \<lparr> ccam_codes = [ex_row ex_A, ex_row ex_B],
      associations = [ex_gesture ex_B ex_A (ustr ''act123'')], frequent_associations = [] \<rparr>"

definition ex_db_unknown :: database where
  \<comment> \<open>Z is not in the catalog, yet an edge from Z to B is stored\<close>
  "ex_db_unknown = \<lparr> ccam_codes = [ex_row ex_B],
      associations = [ex_gesture ex_Z ex_B (ustr ''act123'')], frequent_associations = [] \<rparr>"

definition ex_header :: sheet_row where
  \<comment> \<open>the first row of the sheet: the column titles, which the builder skips\<close>
  "ex_header =
     \<lparr> n_cells = 52, line_type_cell = None, code_sub_cell = None, text_cell = None,
       chap_num_cell = None, icr_public_cell = None, gestures_text_cell = None,
       gestures_act123_cell = None, gestures_act4_cell = None, gestures_act5_cell = None,
       anesthesia_cell = None, date_end_cell = None \<rparr>"

definition ex_sheet :: "sheet_row list" where
  \<comment> \<open>a header and one code line whose gesture and anesthesia cells also name the code itself\<close>
  "ex_sheet =
     [ex_header,
      \<lparr> n_cells = 52, line_type_cell = Some (ustr ''L''), code_sub_cell = Some ex_A,
        text_cell = Some (ustr ''Acte test''), chap_num_cell = Some (ustr ''01''),
        icr_public_cell = None, gestures_text_cell = Some (ustr ''AAAA001 BBBB002''),
        gestures_act123_cell = None, gestures_act4_cell = None, gestures_act5_cell = None,
        anesthesia_cell = Some (ustr ''AAAA001, CCCC003''), date_end_cell = None \<rparr>]"

definition ex_fts :: fts5 where
  \<comment> \<open>a toy index: an expression matches the rows whose normalized label it equals\<close>
  "ex_fts q tbl = Some (filter (\<lambda>r. cc_label_normalized r = Some q) tbl)"

definition ex_expired :: ccam_row where
  "ex_expired = (ex_row ex_C) \<lparr> cc_date_end := Some (ustr ''2020-01-01'') \<rparr>"

definition ex_db_search :: database where
  \<comment> \<open>an active and an expired entry with the same label, one edge from the active one\<close>
  "ex_db_search = \<lparr> ccam_codes = [ex_expired, ex_row ex_A],
      associations = [ex_gesture ex_A ex_B (ustr ''act123'')], frequent_associations = [] \<rparr>"

definition ex_outcome :: search_outcome where
  "ex_outcome =
     \<lparr> executed = [(Conjunctive, Inr []), (Disjunctive, Inr []),
                   (Substring, Inr [ex_expired, ex_row ex_A])],
       returned = Inr [(ex_expired, 0), (ex_row ex_A, 1)] \<rparr>"

definition ex_outcome_active :: search_outcome where
  "ex_outcome_active =
     \<lparr> executed = [(Conjunctive, Inr []), (Disjunctive, Inr []),
                   (Substring, Inl OperationalError)],
       returned = Inl OperationalError \<rparr>"

definition ex_db_catalog :: database where
  "ex_db_catalog = \<lparr> ccam_codes = [ex_row ex_A, ex_row ex_B, ex_row ex_C],
      associations = [], frequent_associations = [] \<rparr>"

definition ex_scraped_dup :: "(str \<times> candidate list) list" where
  \<comment> \<open>the raw list of A names B twice\<close>
  "ex_scraped_dup =
     [(ex_A, [\<lparr> cand_code = ex_B, cand_label = None \<rparr>, \<lparr> cand_code = ex_B, cand_label = None \<rparr>,
              \<lparr> cand_code = ex_C, cand_label = None \<rparr>])]"

definition ex_valid :: "str \<Rightarrow> confidence \<Rightarrow> valid_assoc" where
  "ex_valid c conf = \<lparr> va_code = c, va_label = ustr ''Acte test chirurgical'',
      va_icr_public = None, va_confidence = conf \<rparr>"

definition ex_info :: code_info where
  "ex_info = \<lparr> ci_label = ustr ''Acte test chirurgical'', ci_active = True,
      ci_chapter = Some (ustr ''01''), ci_icr_public = None \<rparr>"

definition ex_sheet_row :: "str \<Rightarrow> str option \<Rightarrow> sheet_row" where
  \<comment> \<open>a code line whose text and activity-1/2/3 gesture cells hold the same text\<close>
  "ex_sheet_row c gestures =
     \<lparr> n_cells = 52, line_type_cell = Some (ustr ''L''), code_sub_cell = Some c,
       text_cell = Some (ustr ''Acte test''), chap_num_cell = Some (ustr ''01''),
       icr_public_cell = None, gestures_text_cell = gestures,
       gestures_act123_cell = gestures, gestures_act4_cell = None, gestures_act5_cell = None,
       anesthesia_cell = None, date_end_cell = None \<rparr>"

definition ex_db_plan :: database where
  \<comment> \<open>the whole pipeline: the builder on a sheet where A names B as a gesture in two columns,
      then the classifier and the integration on candidates B and C for A\<close>
  "ex_db_plan =
     (let built = parse_complementary_file ascii_db
            [ex_header, ex_sheet_row ex_A (Some ex_B), ex_sheet_row ex_B None,
             ex_sheet_row ex_C None]
      in integrate (validate built
            [(ex_A, [\<lparr> cand_code = ex_B, cand_label = None \<rparr>,
                     \<lparr> cand_code = ex_C, cand_label = None \<rparr>])]) built)"

section \<open>A function for the proofs\<close>

text \<open>
  Not part of the program: \<open>first_new seen ps\<close> keeps of the numbered entries \<open>ps\<close> those
  whose code is neither in \<open>seen\<close> nor held by an earlier entry. It describes what a run of
  INSERT OR IGNORE leaves and is used in proofs only.
\<close>

fun first_new :: "str set \<Rightarrow> (nat \<times> valid_assoc) list \<Rightarrow> (nat \<times> valid_assoc) list" where
  "first_new seen [] = []"
| "first_new seen ((i, a) # ps) =
     (if va_code a \<in> seen then first_new seen ps
      else (i, a) # first_new (insert (va_code a) seen) ps)"

section \<open>Properties of the compatibility checker\<close>

lemma set_concat_enumerate:
  "x \<in> set (concat (map (\<lambda>(i, c). f i c) (enumerate 0 xs)))
     \<longleftrightarrow> (\<exists>i < length xs. x \<in> set (f i (xs ! i)))"
proof
  assume "x \<in> set (concat (map (\<lambda>(i, c). f i c) (enumerate 0 xs)))"
  then show "\<exists>i < length xs. x \<in> set (f i (xs ! i))"
    by (auto simp: in_set_enumerate_eq)
next
  assume "\<exists>i < length xs. x \<in> set (f i (xs ! i))"
  then obtain i where i: "i < length xs" "x \<in> set (f i (xs ! i))" by blast
  then have "(i, xs ! i) \<in> set (enumerate 0 xs)"
    by (simp add: in_set_enumerate_eq)
  with i(2) show "x \<in> set (concat (map (\<lambda>(i, c). f i c) (enumerate 0 xs)))"
    by (force simp del: enumerate_simps)
qed

lemma check_compatibility_unfold:
  "check_compatibility U db codes0 =
     (if concat (map (\<lambda>(i, c). code_issues db (map (str_upper U) codes0) i c)
                     (enumerate 0 (map (str_upper U) codes0))) = [] then [Ok]
      else concat (map (\<lambda>(i, c). code_issues db (map (str_upper U) codes0) i c)
                     (enumerate 0 (map (str_upper U) codes0))))"
  by (simp add: check_compatibility_def Let_def)

lemma in_check_compatibility:
  assumes "x \<noteq> Ok"
  shows "x \<in> set (check_compatibility U db codes0) \<longleftrightarrow>
    (\<exists>i < length codes0.
        x \<in> set (code_issues db (map (str_upper U) codes0) i (str_upper U (codes0 ! i))))"
proof -
  define issues where
    "issues = concat (map (\<lambda>(i, c). code_issues db (map (str_upper U) codes0) i c)
                          (enumerate 0 (map (str_upper U) codes0)))"
  have mem: "x \<in> set issues \<longleftrightarrow>
     (\<exists>i < length codes0.
        x \<in> set (code_issues db (map (str_upper U) codes0) i (str_upper U (codes0 ! i))))"
    unfolding issues_def set_concat_enumerate by auto
  have "check_compatibility U db codes0 = (if issues = [] then [Ok] else issues)"
    unfolding issues_def by (rule check_compatibility_unfold)
  then have "x \<in> set (check_compatibility U db codes0) \<longleftrightarrow> x \<in> set issues"
    using assms by (cases "issues = []") auto
  with mem show ?thesis by simp
qed

lemma has_assoc_in_pair_issues:
  "HasAssociation c1 c2 t a \<in> set (pair_issues db x y) \<Longrightarrow>
     c1 = x \<and> c2 = y \<and>
     (\<exists>e \<in> set (associations db). a_code e = c1 \<and> a_associated_code e = c2
        \<and> a_association_type e = t \<and> a_activity e = a)"
  by (auto simp: pair_issues_def select_assoc_def Let_def split: if_splits)

lemma has_assoc_in_code_issues:
  assumes "HasAssociation c1 c2 t a \<in> set (code_issues db codes i x)"
  shows "c1 = x \<and> get_row db x \<noteq> None \<and> (\<exists>j. i < j \<and> j < length codes \<and> codes ! j = c2)
     \<and> (\<exists>e \<in> set (associations db). a_code e = c1 \<and> a_associated_code e = c2
        \<and> a_association_type e = t \<and> a_activity e = a)"
proof (cases "get_row db x")
  case None
  with assms show ?thesis by (simp add: code_issues_def)
next
  case (Some row)
  with assms obtain j where j: "j < length codes" "\<not> j \<le> i"
      and mem: "HasAssociation c1 c2 t a \<in> set (pair_issues db x (codes ! j))"
    by (auto simp: code_issues_def in_set_enumerate_eq split: option.splits if_splits)
  from j have "i < j" by simp
  with has_assoc_in_pair_issues[OF mem] j(1) Some show ?thesis
    by blast
qed

lemma has_assoc_in_check:
  assumes "HasAssociation c1 c2 t a \<in> set (check_compatibility U db codes0)"
  shows "get_row db c1 \<noteq> None \<and> c1 \<in> set (map (str_upper U) codes0)
     \<and> c2 \<in> set (map (str_upper U) codes0)
     \<and> (\<exists>e \<in> set (associations db). a_code e = c1 \<and> a_associated_code e = c2
        \<and> a_association_type e = t \<and> a_activity e = a)"
proof -
  from assms obtain i where i: "i < length codes0"
    and mem: "HasAssociation c1 c2 t a
        \<in> set (code_issues db (map (str_upper U) codes0) i (str_upper U (codes0 ! i)))"
    by (auto simp: in_check_compatibility)
  note h = has_assoc_in_code_issues[OF mem]
  from h have c1: "c1 = str_upper U (codes0 ! i)" and row: "get_row db c1 \<noteq> None" by simp_all
  from h obtain j where j: "j < length (map (str_upper U) codes0)"
      "map (str_upper U) codes0 ! j = c2"
    by blast
  have "c1 \<in> set (map (str_upper U) codes0)"
    using i c1 by (metis length_map nth_map nth_mem)
  moreover have "c2 \<in> set (map (str_upper U) codes0)"
    using j by (metis nth_mem)
  ultimately show ?thesis using row h by blast
qed

lemma code_issues_unknown:
  "get_row db c = None \<Longrightarrow> code_issues db codes i c = [UnknownCode c]"
  by (simp add: code_issues_def)

lemma forward_edge_reported:
  assumes "i < j" "j < length codes0"
    and "get_row db (str_upper U (codes0 ! i)) \<noteq> None"
    and "e \<in> set (select_assoc db (str_upper U (codes0 ! i)) (str_upper U (codes0 ! j)))"
  shows "HasAssociation (str_upper U (codes0 ! i)) (str_upper U (codes0 ! j))
           (a_association_type e) (a_activity e) \<in> set (check_compatibility U db codes0)"
proof -
  define codes where "codes = map (str_upper U) codes0"
  define c1 where "c1 = str_upper U (codes0 ! i)"
  define x where "x = HasAssociation c1 (str_upper U (codes0 ! j))
                        (a_association_type e) (a_activity e)"
  define pairs where "pairs = concat (map (\<lambda>(j, code2). if i \<ge> j then []
                      else pair_issues db c1 code2) (enumerate 0 codes))"
  from assms(1,2) have i: "i < length codes0" by simp
  have cj: "codes ! j = str_upper U (codes0 ! j)" and len: "j < length codes"
    using assms(2) by (simp_all add: codes_def)
  from assms(4) have "x \<in> set (pair_issues db c1 (codes ! j))"
    by (auto simp: pair_issues_def Let_def x_def c1_def cj)
  with assms(1) len have "\<exists>j < length codes. x \<in> set (if i \<ge> j then []
                      else pair_issues db c1 (codes ! j))"
    by (intro exI[of _ j]) simp
  then have "x \<in> set pairs"
    unfolding pairs_def set_concat_enumerate .
  moreover from assms(3) obtain row where "get_row db c1 = Some row"
    by (auto simp: c1_def)
  then obtain pre where "code_issues db codes i c1 = pre @ pairs"
    by (simp add: code_issues_def pairs_def)
  ultimately have "x \<in> set (code_issues db codes i c1)" by simp
  then have "x \<in> set (check_compatibility U db codes0)"
    using i by (auto simp: in_check_compatibility x_def codes_def c1_def)
  then show ?thesis by (simp add: x_def c1_def)
qed

text \<open>
  C1. The checker reads the edges of both directions for every pair it examines, but it
  only reports those from the earlier code to the later one. With both codes in the
  catalog and a single declared gesture edge from \<open>BBBB002\<close> to \<open>AAAA001\<close>, checking
  \<open>[AAAA001, BBBB002]\<close> finds the edge (the reverse lookup is not empty), reports no
  association and answers \<open>ok\<close>; the same two codes in the other order are reported.
\<close>

theorem check_compatibility_reverse_edge_unreported:
  "select_assoc ex_db_reverse ex_B ex_A \<noteq> []
   \<and> check_compatibility ascii_db ex_db_reverse [ex_A, ex_B] = [Ok]
   \<and> check_compatibility ascii_db ex_db_reverse [ex_B, ex_A]
       = [HasAssociation ex_B ex_A (ustr ''complementary_gesture'') (ustr ''act123'')]"
  by code_simp

text \<open>
  C9. When the code at position \<open>i\<close> of the input is absent from the catalog, the checker
  emits its \<open>unknown_code\<close> issue and nothing else for that position: no pair with that
  code in the earlier place is examined. So the result holds the \<open>unknown_code\<close> issue and
  no \<open>has_association\<close> issue whose first code is that code, whatever edges the
  association table stores for it.
\<close>

theorem unknown_code_skips_pairs:
  assumes "i < length codes0"
    and "get_row db (str_upper U (codes0 ! i)) = None"
  shows "code_issues db (map (str_upper U) codes0) i (str_upper U (codes0 ! i))
           = [UnknownCode (str_upper U (codes0 ! i))]
     \<and> UnknownCode (str_upper U (codes0 ! i)) \<in> set (check_compatibility U db codes0)
     \<and> (\<forall>c2 t a. HasAssociation (str_upper U (codes0 ! i)) c2 t a
                    \<notin> set (check_compatibility U db codes0))"
proof -
  let ?c = "str_upper U (codes0 ! i)"
  have one: "code_issues db (map (str_upper U) codes0) i ?c = [UnknownCode ?c]"
    using assms(2) by (rule code_issues_unknown)
  have "UnknownCode ?c \<in> set (check_compatibility U db codes0)"
    using assms(1) one by (auto simp: in_check_compatibility)
  moreover have "HasAssociation ?c c2 t a \<notin> set (check_compatibility U db codes0)" for c2 t a
    using has_assoc_in_check[of ?c c2 t a U db codes0] assms(2) by blast
  ultimately show ?thesis using one by blast
qed

theorem unknown_code_skips_pairs_witness:
  "(0::nat) < length [ex_Z, ex_B]
   \<and> get_row ex_db_unknown (str_upper ascii_db ([ex_Z, ex_B] ! 0)) = None
   \<and> select_assoc ex_db_unknown ex_Z ex_B \<noteq> []
   \<and> check_compatibility ascii_db ex_db_unknown [ex_Z, ex_B] = [UnknownCode ex_Z]
   \<and> (\<forall>c2 t a. HasAssociation (str_upper ascii_db ([ex_Z, ex_B] ! 0)) c2 t a
                  \<notin> set (check_compatibility ascii_db ex_db_unknown [ex_Z, ex_B]))"
proof -
  have len: "(0::nat) < length [ex_Z, ex_B]" by simp
  have row: "get_row ex_db_unknown (str_upper ascii_db ([ex_Z, ex_B] ! 0)) = None"
    by code_simp
  have edge: "select_assoc ex_db_unknown ex_Z ex_B \<noteq> []" by code_simp
  have res: "check_compatibility ascii_db ex_db_unknown [ex_Z, ex_B] = [UnknownCode ex_Z]"
    by code_simp
  from unknown_code_skips_pairs [OF len row] len row edge res show ?thesis by blast
qed

section \<open>Properties of the catalog builder\<close>

lemma insert_assoc_no_self_loop:
  "list_all (\<lambda>e. a_code e \<noteq> a_associated_code e) tbl \<Longrightarrow> a_code r \<noteq> a_associated_code r
   \<Longrightarrow> list_all (\<lambda>e. a_code e \<noteq> a_associated_code e) (insert_assoc_or_ignore r tbl)"
  by (simp add: insert_assoc_or_ignore_def)

lemma foldl_insert_no_self_loop:
  "list_all (\<lambda>e. a_code e \<noteq> a_associated_code e) tbl \<Longrightarrow>
   list_all (\<lambda>e. a_code e \<noteq> a_associated_code e)
     (foldl (\<lambda>t x. if x \<noteq> c
               then insert_assoc_or_ignore
                      \<lparr> a_code = c, a_associated_code = x, a_association_type = ty,
                        a_activity = act \<rparr> t
               else t) tbl xs)"
  by (induction xs arbitrary: tbl) (simp_all add: insert_assoc_no_self_loop)

lemma add_gestures_no_self_loop:
  "list_all (\<lambda>e. a_code e \<noteq> a_associated_code e) tbl \<Longrightarrow>
   list_all (\<lambda>e. a_code e \<noteq> a_associated_code e) (add_gestures U c act cell tbl)"
  by (simp add: add_gestures_def foldl_insert_no_self_loop split: option.splits)

lemma add_anesthesia_no_self_loop:
  "list_all (\<lambda>e. a_code e \<noteq> a_associated_code e) tbl \<Longrightarrow>
   list_all (\<lambda>e. a_code e \<noteq> a_associated_code e) (add_anesthesia U c cell tbl)"
  by (simp add: add_anesthesia_def foldl_insert_no_self_loop split: option.splits)

lemma add_associations_no_self_loop:
  "list_all (\<lambda>e. a_code e \<noteq> a_associated_code e) tbl \<Longrightarrow>
   list_all (\<lambda>e. a_code e \<noteq> a_associated_code e) (add_associations U c row tbl)"
  by (simp add: add_associations_def add_gestures_no_self_loop add_anesthesia_no_self_loop)

lemma process_row_no_self_loop:
  "list_all (\<lambda>e. a_code e \<noteq> a_associated_code e) (associations (bs_db st)) \<Longrightarrow>
   list_all (\<lambda>e. a_code e \<noteq> a_associated_code e) (associations (bs_db (process_row U st row)))"
  by (simp add: process_row_def Let_def add_associations_no_self_loop split: option.splits)

lemma foldl_process_row_no_self_loop:
  "list_all (\<lambda>e. a_code e \<noteq> a_associated_code e) (associations (bs_db st)) \<Longrightarrow>
   list_all (\<lambda>e. a_code e \<noteq> a_associated_code e)
     (associations (bs_db (foldl (process_row U) st sheet)))"
  by (induction sheet arbitrary: st) (simp_all add: process_row_no_self_loop)

lemma parse_no_self_loop:
  "list_all (\<lambda>e. a_code e \<noteq> a_associated_code e)
     (associations (parse_complementary_file U sheet))"
  unfolding parse_complementary_file_def
  by (rule foldl_process_row_no_self_loop) (simp add: create_database_def)

text \<open>
  C10. Every edge the catalog builder stores, from a gesture column or from the
  anesthesia column, has a target different from its source. The checker reports an
  association only for a stored edge, so on a database holding the builder's association
  table no \<open>has_association\<close> issue pairs a code with itself, also when the input lists a
  code twice.
\<close>

theorem builder_edges_no_self_loop:
  "(\<forall>e \<in> set (associations (parse_complementary_file U sheet)). a_code e \<noteq> a_associated_code e)
   \<and> (associations db = associations (parse_complementary_file U sheet)
        \<longrightarrow> HasAssociation c c t a \<notin> set (check_compatibility U' db codes))"
proof -
  have inv: "\<forall>e \<in> set (associations (parse_complementary_file U sheet)).
               a_code e \<noteq> a_associated_code e"
    using parse_no_self_loop[of U sheet] by (simp add: list_all_iff)
  moreover have "HasAssociation c c t a \<notin> set (check_compatibility U' db codes)"
    if "associations db = associations (parse_complementary_file U sheet)"
  proof
    assume "HasAssociation c c t a \<in> set (check_compatibility U' db codes)"
    from has_assoc_in_check[OF this] obtain e where
      "e \<in> set (associations db)" "a_code e = c" "a_associated_code e = c" by blast
    with inv that show False by metis
  qed
  ultimately show ?thesis by blast
qed

theorem builder_edges_no_self_loop_witness:
  "map (\<lambda>e. (a_code e, a_associated_code e, a_activity e))
       (associations (parse_complementary_file ascii_db ex_sheet))
     = [(ex_A, ex_B, ustr ''text''), (ex_A, ex_C, ustr ''anesthesia'')]
   \<and> HasAssociation ex_A ex_A (ustr ''complementary_gesture'') (ustr ''text'')
       \<notin> set (check_compatibility ascii_db (parse_complementary_file ascii_db ex_sheet)
                 [ex_A, ex_A])
   \<and> check_compatibility ascii_db (parse_complementary_file ascii_db ex_sheet) [ex_A, ex_B]
       = [HasAssociation ex_A ex_B (ustr ''complementary_gesture'') (ustr ''text''),
          UnknownCode ex_B]"
proof -
  have built: "map (\<lambda>e. (a_code e, a_associated_code e, a_activity e))
       (associations (parse_complementary_file ascii_db ex_sheet))
     = [(ex_A, ex_B, ustr ''text''), (ex_A, ex_C, ustr ''anesthesia'')]"
    by code_simp
  have pair: "check_compatibility ascii_db (parse_complementary_file ascii_db ex_sheet)
       [ex_A, ex_B] = [HasAssociation ex_A ex_B (ustr ''complementary_gesture'') (ustr ''text''),
                       UnknownCode ex_B]"
    by code_simp
  have "HasAssociation ex_A ex_A (ustr ''complementary_gesture'') (ustr ''text'')
       \<notin> set (check_compatibility ascii_db (parse_complementary_file ascii_db ex_sheet)
                 [ex_A, ex_A])"
    by (rule builder_edges_no_self_loop
         [where U = ascii_db and sheet = ex_sheet
            and db = "parse_complementary_file ascii_db ex_sheet" and U' = ascii_db,
          THEN conjunct2, THEN mp, OF refl])
  with built pair show ?thesis by blast
qed

section \<open>Properties of the text normalizer\<close>

lemma py_isspace_space: "py_isspace U 32"
  by (simp add: py_isspace_def ascii_whitespace_def)

lemma split_aux_chars:
  "t \<in> set (split_aux ws cur s) \<Longrightarrow> set t \<subseteq> set cur \<union> {c \<in> set s. \<not> ws c}"
proof (induction s arbitrary: cur)
  case Nil
  then show ?case by (simp split: if_splits)
next
  case (Cons x s)
  show ?case
  proof (cases "ws x")
    case True
    with Cons.prems have "t = cur \<or> t \<in> set (split_aux ws [] s)"
      by (simp split: if_splits)
    then show ?thesis using Cons.IH[of "[]"] by auto
  next
    case False
    with Cons.prems have "t \<in> set (split_aux ws (cur @ [x]) s)" by simp
    from Cons.IH[OF this] False show ?thesis by auto
  qed
qed

lemma str_split_chars:
  "t \<in> set (str_split U s) \<Longrightarrow> c \<in> set t \<Longrightarrow> c \<in> set s \<and> \<not> py_isspace U c"
  using split_aux_chars[of t "py_isspace U" "[]" s] by (auto simp: str_split_def)

lemma re_sub_nonword_chars:
  "c \<in> set (re_sub_nonword U s) \<Longrightarrow> re_word U c \<or> py_isspace U c"
  by (auto simp: re_sub_nonword_def py_isspace_space)

lemma collapse_ws_chars:
  "c \<in> set (collapse_ws ws b s) \<Longrightarrow> c = 32 \<or> (c \<in> set s \<and> \<not> ws c)"
  by (induction s arbitrary: b) (auto split: if_splits)

lemma str_strip_chars: "c \<in> set (str_strip U s) \<Longrightarrow> c \<in> set s"
  by (auto simp: str_strip_def dest!: set_dropWhileD)

lemma normalize_query_tokens:
  assumes "normalize_query U (Some q) = Inr tokens" "t \<in> set tokens" "c \<in> set t"
  shows "re_word U c \<and> \<not> py_isspace U c"
proof -
  define tx where "tx = re_sub_nonword U (strip_accents U (str_strip U (str_lower U q)))"
  from assms(1,2) have "t \<in> set (str_split U tx)"
    by (auto simp: normalize_query_def Let_def tx_def split: if_splits)
  from str_split_chars[OF this assms(3)] have "c \<in> set tx" "\<not> py_isspace U c" by simp_all
  with re_sub_nonword_chars[of c U] show ?thesis by (auto simp: tx_def)
qed

lemma normalize_for_search_chars:
  assumes "c \<in> set (normalize_for_search U label)"
  shows "re_word U c \<or> c = 32"
proof (cases label)
  case None
  with assms show ?thesis by (simp add: normalize_for_search_def)
next
  case (Some t)
  show ?thesis
  proof (cases "t = []")
    case True
    with Some assms show ?thesis by (simp add: normalize_for_search_def)
  next
    case False
    with Some assms have "c \<in> set (str_strip U (re_sub_spaces U (re_sub_nonword U (strip_accents U (str_lower U t)))))"
      by (simp add: normalize_for_search_def Let_def)
    then have "c \<in> set (collapse_ws (py_isspace U) False (re_sub_nonword U (strip_accents U (str_lower U t))))"
      by (auto dest: str_strip_chars simp: re_sub_spaces_def)
    from collapse_ws_chars[OF this] re_sub_nonword_chars[of c U] show ?thesis by auto
  qed
qed

text \<open>
  C3. On the empty string the query-side normalizer returns no token and \<open>search\<close> returns
  the empty result. On \<open>None\<close> it does not: \<open>normalize_query\<close> calls \<open>query.lower()\<close>
  before anything else, which raises, and \<open>search\<close> raises with it. The guard for a missing
  text sits in \<open>strip_accents\<close> and in the build-side \<open>normalize_for_search\<close>, which does
  map \<open>None\<close> to the empty string.
\<close>

theorem normalize_query_none_raises:
  "normalize_query U (Some []) = Inr []
   \<and> search U fts db (Some []) limit active_only = Inr []
   \<and> normalize_query U None = Inl AttributeError
   \<and> search U fts db None limit active_only = Inl AttributeError
   \<and> normalize_for_search U None = []"
  by (simp add: normalize_query_def search_def search_run_def str_lower_def str_strip_def
        strip_accents_def re_sub_nonword_def str_split_def normalize_for_search_def)

text \<open>
  C8, as stated, fails: the pattern \<open>[^\w\s]\<close> keeps every word character, and the
  underscore is one. It is neither a letter, a digit nor whitespace, and it survives into
  a token of the query-side normalizer and into the build-side normalized label.
\<close>

theorem underscore_survives_counterexample:
  "normalize_query ascii_db (Some (ustr ''a_b'')) = Inr [ustr ''a_b'']
   \<and> normalize_for_search ascii_db (Some (ustr ''a_b'')) = ustr ''a_b''
   \<and> List.member (ustr ''a_b'') 95
   \<and> \<not> py_isalnum ascii_db 95 \<and> \<not> py_isspace ascii_db 95"
  by code_simp

lemma re_sub_nonword_nth:
  "length (re_sub_nonword U s) = length s
   \<and> (\<forall>i < length s. re_sub_nonword U s ! i =
        (if py_isalnum U (s ! i) \<or> s ! i = 95 \<or> py_isspace U (s ! i) then s ! i else 32))"
  by (simp add: re_sub_nonword_def re_word_def)

lemma split_aux_re_sub:
  "split_aux (py_isspace U) cur (re_sub_nonword U s)
     = split_aux (\<lambda>c. \<not> (py_isalnum U c \<or> c = 95) \<or> py_isspace U c) cur s"
  by (induction s arbitrary: cur) (simp_all add: re_sub_nonword_def re_word_def py_isspace_space)

lemma split_aux_run:
  "\<forall>c \<in> set x. \<not> ws c \<Longrightarrow> split_aux ws cur (x @ rest) = split_aux ws (cur @ x) rest"
  by (induction x arbitrary: cur) simp_all

lemma split_aux_two:
  assumes "x \<noteq> []" "y \<noteq> []" "\<forall>c \<in> set x. \<not> ws c" "\<forall>c \<in> set y. \<not> ws c" "ws d"
  shows "split_aux ws [] (x @ [d] @ y) = [x, y]"
proof -
  have "split_aux ws [] (x @ [d] @ y) = split_aux ws x (d # y)"
    using split_aux_run[OF assms(3), of "[]" "[d] @ y"] by simp
  also have "\<dots> = x # split_aux ws [] (y @ [])"
    using assms(1,5) by simp
  also have "split_aux ws [] (y @ []) = split_aux ws y []"
    using split_aux_run[OF assms(4), of "[]" "[]"] by simp
  finally show ?thesis using assms(2) by simp
qed

lemma normalize_query_runs:
  "normalize_query U (Some q) =
     Inr (let ts = split_aux (\<lambda>c. \<not> (py_isalnum U c \<or> c = 95) \<or> py_isspace U c) []
                     (strip_accents U (str_strip U (str_lower U q)))
          in if 1 < length ts then filter (\<lambda>t. 2 < length t) ts else ts)"
  by (simp add: normalize_query_def str_split_def split_aux_re_sub Let_def)

lemma normalize_query_separator:
  assumes "strip_accents U (str_strip U (str_lower U q)) = x @ [d] @ y" "x \<noteq> []" "y \<noteq> []"
    and "\<forall>c \<in> set x \<union> set y. (py_isalnum U c \<or> c = 95) \<and> \<not> py_isspace U c"
    and "\<not> (py_isalnum U d \<or> d = 95)"
  shows "normalize_query U (Some q) = Inr (filter (\<lambda>t. 2 < length t) [x, y])"
proof -
  have "split_aux (\<lambda>c. \<not> (py_isalnum U c \<or> c = 95) \<or> py_isspace U c) [] (x @ [d] @ y) = [x, y]"
    using assms(2-5) by (intro split_aux_two) auto
  with assms(1) show ?thesis by (simp add: normalize_query_runs)
qed

lemma collapse_ws_run:
  "\<forall>c \<in> set x. \<not> ws c \<Longrightarrow>
   collapse_ws ws b (x @ rest) = x @ collapse_ws ws (if x = [] then b else False) rest"
  by (induction x arbitrary: b) simp_all

lemma str_strip_id:
  assumes "s \<noteq> []" "\<not> py_isspace U (hd s)" "\<not> py_isspace U (last s)"
  shows "str_strip U s = s"
proof -
  from assms(1,2) have "dropWhile (py_isspace U) s = s"
    by (simp add: dropWhile_eq_self_iff)
  moreover from assms(1,3) have "dropWhile (py_isspace U) (rev s) = rev s"
    by (simp add: dropWhile_eq_self_iff hd_rev)
  ultimately show ?thesis by (simp add: str_strip_def)
qed

lemma normalize_for_search_separator:
  assumes "strip_accents U (str_lower U l) = x @ [d] @ y" "x \<noteq> []" "y \<noteq> []"
    and "\<forall>c \<in> set x \<union> set y. (py_isalnum U c \<or> c = 95) \<and> \<not> py_isspace U c"
    and "\<not> (py_isalnum U d \<or> d = 95)" "\<not> py_isspace U d"
  shows "normalize_for_search U (Some l) = x @ [32] @ y"
proof -
  from assms(1,2) have l: "l \<noteq> []"
    by (auto simp: strip_accents_def str_lower_def)
  from assms(4) have wx: "\<forall>c \<in> set x. re_word U c" and wy: "\<forall>c \<in> set y. re_word U c"
    and sx: "\<forall>c \<in> set x. \<not> py_isspace U c" and sy: "\<forall>c \<in> set y. \<not> py_isspace U c"
    by (auto simp: re_word_def)
  from wx have mx: "re_sub_nonword U x = x"
    by (simp add: re_sub_nonword_def map_idI)
  from wy have my: "re_sub_nonword U y = y"
    by (simp add: re_sub_nonword_def map_idI)
  from assms(5,6) have md: "re_sub_nonword U [d] = [32]"
    by (simp add: re_sub_nonword_def re_word_def)
  have app: "re_sub_nonword U (a @ b) = re_sub_nonword U a @ re_sub_nonword U b" for a b
    by (simp add: re_sub_nonword_def)
  have r: "re_sub_nonword U (x @ [d] @ y) = x @ [32] @ y"
    by (simp only: app mx my md)
  have "collapse_ws (py_isspace U) True (y @ []) = y @ collapse_ws (py_isspace U) False []"
    using collapse_ws_run[OF sy, of True "[]"] assms(3) by simp
  then have cy: "collapse_ws (py_isspace U) True y = y" by simp
  have "collapse_ws (py_isspace U) False (x @ ([32] @ y))
          = x @ collapse_ws (py_isspace U) False ([32] @ y)"
    using collapse_ws_run[OF sx, of False "[32] @ y"] assms(2) by simp
  with cy have c: "re_sub_spaces U (x @ [32] @ y) = x @ [32] @ y"
    by (simp add: re_sub_spaces_def py_isspace_space)
  from assms(2) sx have h: "\<not> py_isspace U (hd (x @ [32] @ y))" by (cases x) auto
  from assms(3) sy have "\<not> py_isspace U (last y)" by simp
  with assms(3) have e: "\<not> py_isspace U (last (x @ [32] @ y))" by simp
  from assms(2) have "x @ [32] @ y \<noteq> []" by simp
  from str_strip_id[OF this h e] l assms(1) r c show ?thesis
    by (simp add: normalize_for_search_def Let_def)
qed

text \<open>
  C8, amended. For every input string the normalizer replaces every character that is
  neither a word character (a letter, a digit or the underscore) nor whitespace with a
  single space before splitting: the replacement is one character for one character and
  changes nothing else, so the tokens of \<open>normalize_query\<close> are the maximal runs of
  word characters of the folded text, and a replaced character between two such runs
  separates them into two tokens (query side) or leaves one space between them (build
  side). So every character of every token of \<open>normalize_query\<close> is a letter, a digit or an
  underscore and none is whitespace, and every character of the build-side
  \<open>normalize_for_search\<close> is a letter, a digit, an underscore or a space.
\<close>

theorem tokens_are_word_characters:
  "(normalize_query U (Some q) = Inr tokens \<longrightarrow>
      (\<forall>t \<in> set tokens. \<forall>c \<in> set t. (py_isalnum U c \<or> c = 95) \<and> \<not> py_isspace U c))
   \<and> (\<forall>c \<in> set (normalize_for_search U label). py_isalnum U c \<or> c = 95 \<or> c = 32)
   \<and> length (re_sub_nonword U s) = length s
   \<and> (\<forall>i < length s. re_sub_nonword U s ! i =
        (if py_isalnum U (s ! i) \<or> s ! i = 95 \<or> py_isspace U (s ! i) then s ! i else 32))
   \<and> normalize_query U (Some q) =
       Inr (let ts = split_aux (\<lambda>c. \<not> (py_isalnum U c \<or> c = 95) \<or> py_isspace U c) []
                       (strip_accents U (str_strip U (str_lower U q)))
            in if 1 < length ts then filter (\<lambda>t. 2 < length t) ts else ts)
   \<and> (strip_accents U (str_strip U (str_lower U q)) = x @ [d] @ y \<and> x \<noteq> [] \<and> y \<noteq> []
        \<and> (\<forall>c \<in> set x \<union> set y. (py_isalnum U c \<or> c = 95) \<and> \<not> py_isspace U c)
        \<and> \<not> (py_isalnum U d \<or> d = 95) \<and> \<not> py_isspace U d \<longrightarrow>
        normalize_query U (Some q) = Inr (filter (\<lambda>t. 2 < length t) [x, y]))
   \<and> (strip_accents U (str_lower U l) = x @ [d] @ y \<and> x \<noteq> [] \<and> y \<noteq> []
        \<and> (\<forall>c \<in> set x \<union> set y. (py_isalnum U c \<or> c = 95) \<and> \<not> py_isspace U c)
        \<and> \<not> (py_isalnum U d \<or> d = 95) \<and> \<not> py_isspace U d \<longrightarrow>
        normalize_for_search U (Some l) = x @ [32] @ y)"
proof -
  have a: "normalize_query U (Some q) = Inr tokens \<longrightarrow>
      (\<forall>t \<in> set tokens. \<forall>c \<in> set t. (py_isalnum U c \<or> c = 95) \<and> \<not> py_isspace U c)"
    using normalize_query_tokens[of U q tokens] unfolding re_word_def by blast
  have b: "\<forall>c \<in> set (normalize_for_search U label). py_isalnum U c \<or> c = 95 \<or> c = 32"
    using normalize_for_search_chars[of _ U label] unfolding re_word_def by blast
  note c = re_sub_nonword_nth[of U s]
  note d = normalize_query_runs[of U q]
  have e: "strip_accents U (str_strip U (str_lower U q)) = x @ [d] @ y \<and> x \<noteq> [] \<and> y \<noteq> []
        \<and> (\<forall>c \<in> set x \<union> set y. (py_isalnum U c \<or> c = 95) \<and> \<not> py_isspace U c)
        \<and> \<not> (py_isalnum U d \<or> d = 95) \<and> \<not> py_isspace U d \<longrightarrow>
        normalize_query U (Some q) = Inr (filter (\<lambda>t. 2 < length t) [x, y])"
    by (intro impI, elim conjE) (rule normalize_query_separator)
  have f: "strip_accents U (str_lower U l) = x @ [d] @ y \<and> x \<noteq> [] \<and> y \<noteq> []
        \<and> (\<forall>c \<in> set x \<union> set y. (py_isalnum U c \<or> c = 95) \<and> \<not> py_isspace U c)
        \<and> \<not> (py_isalnum U d \<or> d = 95) \<and> \<not> py_isspace U d \<longrightarrow>
        normalize_for_search U (Some l) = x @ [32] @ y"
    by (intro impI, elim conjE) (rule normalize_for_search_separator)
  show ?thesis
    by (rule conjI[OF a conjI[OF b conjI[OF conjunct1[OF c] conjI[OF conjunct2[OF c]
          conjI[OF d conjI[OF e f]]]]]])
qed

theorem tokens_are_word_characters_witness:
  "normalize_query ascii_db (Some (ustr ''L, Acte_2  (TEST) de'')) = Inr [ustr ''acte_2'', ustr ''test'']
   \<and> list_all (list_all (\<lambda>c. (py_isalnum ascii_db c \<or> c = 95) \<and> \<not> py_isspace ascii_db c))
        [ustr ''acte_2'', ustr ''test'']
   \<and> normalize_for_search ascii_db (Some (ustr ''L, Acte_2  (TEST) de'')) = ustr ''l acte_2 test de''
   \<and> list_all (\<lambda>c. py_isalnum ascii_db c \<or> c = 95 \<or> c = 32)
        (normalize_for_search ascii_db (Some (ustr ''L, Acte_2  (TEST) de'')))
   \<and> strip_accents ascii_db (str_strip ascii_db (str_lower ascii_db (ustr ''Baz-Qux'')))
       = ustr ''baz'' @ [45] @ ustr ''qux''
   \<and> normalize_query ascii_db (Some (ustr ''Baz-Qux'')) = Inr [ustr ''baz'', ustr ''qux'']
   \<and> normalize_for_search ascii_db (Some (ustr ''Baz-Qux'')) = ustr ''baz qux''"
proof -
  have q: "normalize_query ascii_db (Some (ustr ''L, Acte_2  (TEST) de''))
             = Inr [ustr ''acte_2'', ustr ''test'']"
    by code_simp
  have n: "normalize_for_search ascii_db (Some (ustr ''L, Acte_2  (TEST) de''))
             = ustr ''l acte_2 test de''"
    by code_simp
  have fq: "strip_accents ascii_db (str_strip ascii_db (str_lower ascii_db (ustr ''Baz-Qux'')))
       = ustr ''baz'' @ [45] @ ustr ''qux''"
    by code_simp
  have fl: "strip_accents ascii_db (str_lower ascii_db (ustr ''Baz-Qux''))
       = ustr ''baz'' @ [45] @ ustr ''qux''"
    by code_simp
  have ne: "ustr ''baz'' \<noteq> [] \<and> ustr ''qux'' \<noteq> []"
    by code_simp
  have w: "list_all (\<lambda>c. (py_isalnum ascii_db c \<or> c = 95) \<and> \<not> py_isspace ascii_db c)
             (ustr ''baz'' @ ustr ''qux'')"
    by code_simp
  then have w': "\<forall>c \<in> set (ustr ''baz'') \<union> set (ustr ''qux'').
                   (py_isalnum ascii_db c \<or> c = 95) \<and> \<not> py_isspace ascii_db c"
    unfolding list_all_iff by simp
  have sep: "\<not> (py_isalnum ascii_db 45 \<or> (45::nat) = 95) \<and> \<not> py_isspace ascii_db 45"
    by code_simp
  have f2: "filter (\<lambda>t. 2 < length t) [ustr ''baz'', ustr ''qux''] = [ustr ''baz'', ustr ''qux'']"
    by code_simp
  have sp: "ustr ''baz'' @ [32] @ ustr ''qux'' = ustr ''baz qux''"
    by code_simp
  note T = tokens_are_word_characters
         [where U = ascii_db and q = "ustr ''L, Acte_2  (TEST) de''"
            and tokens = "[ustr ''acte_2'', ustr ''test'']"
            and label = "Some (ustr ''L, Acte_2  (TEST) de'')"]
  from T[THEN conjunct1] q
  have t1: "\<forall>t \<in> set [ustr ''acte_2'', ustr ''test'']. \<forall>c \<in> set t.
           (py_isalnum ascii_db c \<or> c = 95) \<and> \<not> py_isspace ascii_db c"
    by (rule mp)
  from T[THEN conjunct2, THEN conjunct1]
  have t2: "\<forall>c \<in> set (normalize_for_search ascii_db (Some (ustr ''L, Acte_2  (TEST) de''))).
           py_isalnum ascii_db c \<or> c = 95 \<or> c = 32" .
  note S = tokens_are_word_characters
         [where U = ascii_db and q = "ustr ''Baz-Qux''" and l = "ustr ''Baz-Qux''"
            and x = "ustr ''baz''" and d = 45 and y = "ustr ''qux''"]
  note S5 = S[THEN conjunct2, THEN conjunct2, THEN conjunct2, THEN conjunct2, THEN conjunct2]
  have s1: "normalize_query ascii_db (Some (ustr ''Baz-Qux''))
              = Inr (filter (\<lambda>t. 2 < length t) [ustr ''baz'', ustr ''qux''])"
    by (rule mp[OF S5[THEN conjunct1]])
       (intro conjI fq w' ne[THEN conjunct1] ne[THEN conjunct2]
          sep[THEN conjunct1] sep[THEN conjunct2])
  have s2: "normalize_for_search ascii_db (Some (ustr ''Baz-Qux''))
              = ustr ''baz'' @ [32] @ ustr ''qux''"
    by (rule mp[OF S5[THEN conjunct2]])
       (intro conjI fl w' ne[THEN conjunct1] ne[THEN conjunct2]
          sep[THEN conjunct1] sep[THEN conjunct2])
  from q n t1 t2 fq s1 s2 show ?thesis unfolding list_all_iff f2 sp by simp
qed

section \<open>Properties of the search resolver\<close>

lemma sql_limit_subset: "set (sql_limit n xs) \<subseteq> set xs"
  by (auto simp: sql_limit_def dest: in_set_takeD)

lemma fts_statement_active:
  assumes "fts_statement fts db expr limit True = Inr rs" "r \<in> set rs"
  shows "cc_date_end r = None"
proof -
  from assms(1) obtain xs where "rs = sql_limit limit (filter (active_filter True) xs)"
    by (auto simp: fts_statement_def split: option.splits)
  with assms(2) sql_limit_subset[of limit "filter (active_filter True) xs"]
  show ?thesis by (auto simp: active_filter_def)
qed

lemma like_statement_active: "like_statement db pattern limit True = Inl OperationalError"
  by (simp add: like_statement_def)

lemma like_fallback_empty:
  "like_fallback db tokens limit active_only ex [] =
     \<lparr> executed = ex @ [(Substring, like_statement db
            (ustr ''%'' @ str_join (ustr ''%'') tokens @ ustr ''%'') limit active_only)],
       returned = map_sum id (enrich db) (like_statement db
            (ustr ''%'' @ str_join (ustr ''%'') tokens @ ustr ''%'') limit active_only) \<rparr>"
  by (simp add: like_fallback_def Let_def split: sum.splits)

lemma like_fallback_hit:
  "results \<noteq> [] \<Longrightarrow> like_fallback db tokens limit active_only ex results =
     \<lparr> executed = ex, returned = Inr (enrich db results) \<rparr>"
  by (simp add: like_fallback_def)

lemma search_run_cases [consumes 1, case_names empty raise1 hit1 raise2 hit2 like2 like1]:
  assumes "normalize_query U (Some q) = Inr tokens"
  obtains "tokens = []"
      "search_run U fts db (Some q) limit active_only = \<lparr> executed = [], returned = Inr [] \<rparr>"
  | e where "tokens \<noteq> []"
      "fts_statement fts db (str_join (ustr '' '') tokens) limit active_only = Inl e"
      "search_run U fts db (Some q) limit active_only
         = \<lparr> executed = [(Conjunctive, Inl e)], returned = Inl e \<rparr>"
  | rs where "tokens \<noteq> []" "rs \<noteq> []"
      "fts_statement fts db (str_join (ustr '' '') tokens) limit active_only = Inr rs"
      "search_run U fts db (Some q) limit active_only
         = \<lparr> executed = [(Conjunctive, Inr rs)], returned = Inr (enrich db rs) \<rparr>"
  | e where "1 < length tokens"
      "fts_statement fts db (str_join (ustr '' '') tokens) limit active_only = Inr []"
      "fts_statement fts db (str_join (ustr '' OR '') tokens) limit active_only = Inl e"
      "search_run U fts db (Some q) limit active_only
         = \<lparr> executed = [(Conjunctive, Inr []), (Disjunctive, Inl e)], returned = Inl e \<rparr>"
  | rs where "1 < length tokens" "rs \<noteq> []"
      "fts_statement fts db (str_join (ustr '' '') tokens) limit active_only = Inr []"
      "fts_statement fts db (str_join (ustr '' OR '') tokens) limit active_only = Inr rs"
      "search_run U fts db (Some q) limit active_only
         = \<lparr> executed = [(Conjunctive, Inr []), (Disjunctive, Inr rs)],
             returned = Inr (enrich db rs) \<rparr>"
  | "1 < length tokens"
      "fts_statement fts db (str_join (ustr '' '') tokens) limit active_only = Inr []"
      "fts_statement fts db (str_join (ustr '' OR '') tokens) limit active_only = Inr []"
      "search_run U fts db (Some q) limit active_only
         = \<lparr> executed = [(Conjunctive, Inr []), (Disjunctive, Inr []),
               (Substring, like_statement db
                  (ustr ''%'' @ str_join (ustr ''%'') tokens @ ustr ''%'') limit active_only)],
             returned = map_sum id (enrich db) (like_statement db
                  (ustr ''%'' @ str_join (ustr ''%'') tokens @ ustr ''%'') limit active_only) \<rparr>"
  | "length tokens = 1"
      "fts_statement fts db (str_join (ustr '' '') tokens) limit active_only = Inr []"
      "search_run U fts db (Some q) limit active_only
         = \<lparr> executed = [(Conjunctive, Inr []),
               (Substring, like_statement db
                  (ustr ''%'' @ str_join (ustr ''%'') tokens @ ustr ''%'') limit active_only)],
             returned = map_sum id (enrich db) (like_statement db
                  (ustr ''%'' @ str_join (ustr ''%'') tokens @ ustr ''%'') limit active_only) \<rparr>"
proof (cases "tokens = []")
  case True
  with assms have "search_run U fts db (Some q) limit active_only
      = \<lparr> executed = [], returned = Inr [] \<rparr>"
    by (simp add: search_run_def)
  with True that(1) show ?thesis by blast
next
  case False
  then have len: "length tokens = 1 \<or> 1 < length tokens"
    by (cases tokens) auto
  show ?thesis
  proof (cases "fts_statement fts db (str_join (ustr '' '') tokens) limit active_only")
    case (Inl e)
    with assms False have "search_run U fts db (Some q) limit active_only
         = \<lparr> executed = [(Conjunctive, Inl e)], returned = Inl e \<rparr>"
      by (simp add: search_run_def Let_def)
    with False Inl that(2) show ?thesis by blast
  next
    case (Inr rs1)
    show ?thesis
    proof (cases "rs1 = []")
      case hit: False
      with assms False Inr have "search_run U fts db (Some q) limit active_only
         = \<lparr> executed = [(Conjunctive, Inr rs1)], returned = Inr (enrich db rs1) \<rparr>"
        by (simp add: search_run_def Let_def like_fallback_hit)
      with False hit Inr that(3) show ?thesis by blast
    next
      case none: True
      show ?thesis
      proof (cases "1 < length tokens")
        case one: False
        with len have l1: "length tokens = 1" by simp
        with assms False Inr none have "search_run U fts db (Some q) limit active_only
         = \<lparr> executed = [(Conjunctive, Inr []),
               (Substring, like_statement db
                  (ustr ''%'' @ str_join (ustr ''%'') tokens @ ustr ''%'') limit active_only)],
             returned = map_sum id (enrich db) (like_statement db
                  (ustr ''%'' @ str_join (ustr ''%'') tokens @ ustr ''%'') limit active_only) \<rparr>"
          by (simp add: search_run_def Let_def like_fallback_empty)
        with l1 Inr none that(7) show ?thesis by blast
      next
        case many: True
        show ?thesis
        proof (cases "fts_statement fts db (str_join (ustr '' OR '') tokens) limit active_only")
          case r2: (Inl e)
          with assms False Inr none many have "search_run U fts db (Some q) limit active_only
             = \<lparr> executed = [(Conjunctive, Inr []), (Disjunctive, Inl e)], returned = Inl e \<rparr>"
            by (simp add: search_run_def Let_def)
          with many Inr none r2 that(4) show ?thesis by blast
        next
          case r2: (Inr rs2)
          show ?thesis
          proof (cases "rs2 = []")
            case hit2: False
            with assms False Inr none many r2 have "search_run U fts db (Some q) limit active_only
               = \<lparr> executed = [(Conjunctive, Inr []), (Disjunctive, Inr rs2)],
                   returned = Inr (enrich db rs2) \<rparr>"
              by (simp add: search_run_def Let_def like_fallback_hit)
            with many hit2 Inr none r2 that(5) show ?thesis by blast
          next
            case none2: True
            with assms False Inr none many r2 have "search_run U fts db (Some q) limit active_only
               = \<lparr> executed = [(Conjunctive, Inr []), (Disjunctive, Inr []),
                     (Substring, like_statement db
                        (ustr ''%'' @ str_join (ustr ''%'') tokens @ ustr ''%'') limit active_only)],
                   returned = map_sum id (enrich db) (like_statement db
                        (ustr ''%'' @ str_join (ustr ''%'') tokens @ ustr ''%'') limit active_only) \<rparr>"
              by (simp add: search_run_def Let_def like_fallback_empty)
            with many Inr none r2 none2 that(6) show ?thesis by blast
          qed
        qed
      qed
    qed
  qed
qed

lemma normalize_query_Some: "\<exists>tokens. normalize_query U (Some q) = Inr tokens"
  by (simp add: normalize_query_def Let_def)

lemma tiers_empty:
  assumes "tokens = []"
    and "out = \<lparr> executed = [], returned = Inr [] \<rparr>"
  shows "(tokens = [] \<longrightarrow> executed out = [] \<and> returned out = Inr [])
   \<and> (tokens \<noteq> [] \<longrightarrow>
        take 1 (executed out)
          = [(Conjunctive, fts_statement fts db (str_join (ustr '' '') tokens) limit active_only)])
   \<and> List.member [[], [Conjunctive], [Conjunctive, Disjunctive], [Conjunctive, Substring],
                   [Conjunctive, Disjunctive, Substring]] (map fst (executed out))
   \<and> (Disjunctive \<in> set (map fst (executed out)) \<longleftrightarrow>
        (Conjunctive, Inr []) \<in> set (executed out) \<and> 1 < length tokens)
   \<and> (\<forall>r. (Disjunctive, r) \<in> set (executed out) \<longrightarrow>
        r = fts_statement fts db (str_join (ustr '' OR '') tokens) limit active_only)
   \<and> (Substring \<in> set (map fst (executed out)) \<longleftrightarrow>
        executed out \<noteq> []
        \<and> (\<forall>t r. (t, r) \<in> set (executed out) \<and> t \<noteq> Substring \<longrightarrow> r = Inr []))
   \<and> (\<forall>r. (Substring, r) \<in> set (executed out) \<longrightarrow>
        r = like_statement db (ustr ''%'' @ str_join (ustr ''%'') tokens @ ustr ''%'') limit active_only)
   \<and> (executed out \<noteq> [] \<longrightarrow>
        returned out = map_sum id (enrich db) (snd (last (executed out))))"
  using assms by (intro conjI; (simp; fail) | auto)

lemma tiers_raise1:
  assumes "tokens \<noteq> []"
    and "fts_statement fts db (str_join (ustr '' '') tokens) limit active_only = Inl e"
    and "out = \<lparr> executed = [(Conjunctive, Inl e)], returned = Inl e \<rparr>"
  shows "(tokens = [] \<longrightarrow> executed out = [] \<and> returned out = Inr [])
   \<and> (tokens \<noteq> [] \<longrightarrow>
        take 1 (executed out)
          = [(Conjunctive, fts_statement fts db (str_join (ustr '' '') tokens) limit active_only)])
   \<and> List.member [[], [Conjunctive], [Conjunctive, Disjunctive], [Conjunctive, Substring],
                   [Conjunctive, Disjunctive, Substring]] (map fst (executed out))
   \<and> (Disjunctive \<in> set (map fst (executed out)) \<longleftrightarrow>
        (Conjunctive, Inr []) \<in> set (executed out) \<and> 1 < length tokens)
   \<and> (\<forall>r. (Disjunctive, r) \<in> set (executed out) \<longrightarrow>
        r = fts_statement fts db (str_join (ustr '' OR '') tokens) limit active_only)
   \<and> (Substring \<in> set (map fst (executed out)) \<longleftrightarrow>
        executed out \<noteq> []
        \<and> (\<forall>t r. (t, r) \<in> set (executed out) \<and> t \<noteq> Substring \<longrightarrow> r = Inr []))
   \<and> (\<forall>r. (Substring, r) \<in> set (executed out) \<longrightarrow>
        r = like_statement db (ustr ''%'' @ str_join (ustr ''%'') tokens @ ustr ''%'') limit active_only)
   \<and> (executed out \<noteq> [] \<longrightarrow>
        returned out = map_sum id (enrich db) (snd (last (executed out))))"
  using assms by (intro conjI; (simp; fail) | auto)

lemma tiers_hit1:
  assumes "tokens \<noteq> []"
    and "rs \<noteq> []"
    and "fts_statement fts db (str_join (ustr '' '') tokens) limit active_only = Inr rs"
    and "out = \<lparr> executed = [(Conjunctive, Inr rs)], returned = Inr (enrich db rs) \<rparr>"
  shows "(tokens = [] \<longrightarrow> executed out = [] \<and> returned out = Inr [])
   \<and> (tokens \<noteq> [] \<longrightarrow>
        take 1 (executed out)
          = [(Conjunctive, fts_statement fts db (str_join (ustr '' '') tokens) limit active_only)])
   \<and> List.member [[], [Conjunctive], [Conjunctive, Disjunctive], [Conjunctive, Substring],
                   [Conjunctive, Disjunctive, Substring]] (map fst (executed out))
   \<and> (Disjunctive \<in> set (map fst (executed out)) \<longleftrightarrow>
        (Conjunctive, Inr []) \<in> set (executed out) \<and> 1 < length tokens)
   \<and> (\<forall>r. (Disjunctive, r) \<in> set (executed out) \<longrightarrow>
        r = fts_statement fts db (str_join (ustr '' OR '') tokens) limit active_only)
   \<and> (Substring \<in> set (map fst (executed out)) \<longleftrightarrow>
        executed out \<noteq> []
        \<and> (\<forall>t r. (t, r) \<in> set (executed out) \<and> t \<noteq> Substring \<longrightarrow> r = Inr []))
   \<and> (\<forall>r. (Substring, r) \<in> set (executed out) \<longrightarrow>
        r = like_statement db (ustr ''%'' @ str_join (ustr ''%'') tokens @ ustr ''%'') limit active_only)
   \<and> (executed out \<noteq> [] \<longrightarrow>
        returned out = map_sum id (enrich db) (snd (last (executed out))))"
  using assms by (intro conjI; (simp; fail) | auto)

lemma tiers_raise2:
  assumes "1 < length tokens"
    and "fts_statement fts db (str_join (ustr '' '') tokens) limit active_only = Inr []"
    and "fts_statement fts db (str_join (ustr '' OR '') tokens) limit active_only = Inl e"
    and "out = \<lparr> executed = [(Conjunctive, Inr []), (Disjunctive, Inl e)], returned = Inl e \<rparr>"
  shows "(tokens = [] \<longrightarrow> executed out = [] \<and> returned out = Inr [])
   \<and> (tokens \<noteq> [] \<longrightarrow>
        take 1 (executed out)
          = [(Conjunctive, fts_statement fts db (str_join (ustr '' '') tokens) limit active_only)])
   \<and> List.member [[], [Conjunctive], [Conjunctive, Disjunctive], [Conjunctive, Substring],
                   [Conjunctive, Disjunctive, Substring]] (map fst (executed out))
   \<and> (Disjunctive \<in> set (map fst (executed out)) \<longleftrightarrow>
        (Conjunctive, Inr []) \<in> set (executed out) \<and> 1 < length tokens)
   \<and> (\<forall>r. (Disjunctive, r) \<in> set (executed out) \<longrightarrow>
        r = fts_statement fts db (str_join (ustr '' OR '') tokens) limit active_only)
   \<and> (Substring \<in> set (map fst (executed out)) \<longleftrightarrow>
        executed out \<noteq> []
        \<and> (\<forall>t r. (t, r) \<in> set (executed out) \<and> t \<noteq> Substring \<longrightarrow> r = Inr []))
   \<and> (\<forall>r. (Substring, r) \<in> set (executed out) \<longrightarrow>
        r = like_statement db (ustr ''%'' @ str_join (ustr ''%'') tokens @ ustr ''%'') limit active_only)
   \<and> (executed out \<noteq> [] \<longrightarrow>
        returned out = map_sum id (enrich db) (snd (last (executed out))))"
  using assms by (intro conjI; (simp; fail) | auto)

lemma tiers_hit2:
  assumes "1 < length tokens"
    and "rs \<noteq> []"
    and "fts_statement fts db (str_join (ustr '' '') tokens) limit active_only = Inr []"
    and "fts_statement fts db (str_join (ustr '' OR '') tokens) limit active_only = Inr rs"
    and "out = \<lparr> executed = [(Conjunctive, Inr []), (Disjunctive, Inr rs)], returned = Inr (enrich db rs) \<rparr>"
  shows "(tokens = [] \<longrightarrow> executed out = [] \<and> returned out = Inr [])
   \<and> (tokens \<noteq> [] \<longrightarrow>
        take 1 (executed out)
          = [(Conjunctive, fts_statement fts db (str_join (ustr '' '') tokens) limit active_only)])
   \<and> List.member [[], [Conjunctive], [Conjunctive, Disjunctive], [Conjunctive, Substring],
                   [Conjunctive, Disjunctive, Substring]] (map fst (executed out))
   \<and> (Disjunctive \<in> set (map fst (executed out)) \<longleftrightarrow>
        (Conjunctive, Inr []) \<in> set (executed out) \<and> 1 < length tokens)
   \<and> (\<forall>r. (Disjunctive, r) \<in> set (executed out) \<longrightarrow>
        r = fts_statement fts db (str_join (ustr '' OR '') tokens) limit active_only)
   \<and> (Substring \<in> set (map fst (executed out)) \<longleftrightarrow>
        executed out \<noteq> []
        \<and> (\<forall>t r. (t, r) \<in> set (executed out) \<and> t \<noteq> Substring \<longrightarrow> r = Inr []))
   \<and> (\<forall>r. (Substring, r) \<in> set (executed out) \<longrightarrow>
        r = like_statement db (ustr ''%'' @ str_join (ustr ''%'') tokens @ ustr ''%'') limit active_only)
   \<and> (executed out \<noteq> [] \<longrightarrow>
        returned out = map_sum id (enrich db) (snd (last (executed out))))"
  using assms by (intro conjI; (simp; fail) | auto)

lemma tiers_like2:
  assumes "1 < length tokens"
    and "fts_statement fts db (str_join (ustr '' '') tokens) limit active_only = Inr []"
    and "fts_statement fts db (str_join (ustr '' OR '') tokens) limit active_only = Inr []"
    and "out = \<lparr> executed = [(Conjunctive, Inr []), (Disjunctive, Inr []), (Substring, like_statement db (ustr ''%'' @ str_join (ustr ''%'') tokens @ ustr ''%'') limit active_only)], returned = map_sum id (enrich db) (like_statement db (ustr ''%'' @ str_join (ustr ''%'') tokens @ ustr ''%'') limit active_only) \<rparr>"
  shows "(tokens = [] \<longrightarrow> executed out = [] \<and> returned out = Inr [])
   \<and> (tokens \<noteq> [] \<longrightarrow>
        take 1 (executed out)
          = [(Conjunctive, fts_statement fts db (str_join (ustr '' '') tokens) limit active_only)])
   \<and> List.member [[], [Conjunctive], [Conjunctive, Disjunctive], [Conjunctive, Substring],
                   [Conjunctive, Disjunctive, Substring]] (map fst (executed out))
   \<and> (Disjunctive \<in> set (map fst (executed out)) \<longleftrightarrow>
        (Conjunctive, Inr []) \<in> set (executed out) \<and> 1 < length tokens)
   \<and> (\<forall>r. (Disjunctive, r) \<in> set (executed out) \<longrightarrow>
        r = fts_statement fts db (str_join (ustr '' OR '') tokens) limit active_only)
   \<and> (Substring \<in> set (map fst (executed out)) \<longleftrightarrow>
        executed out \<noteq> []
        \<and> (\<forall>t r. (t, r) \<in> set (executed out) \<and> t \<noteq> Substring \<longrightarrow> r = Inr []))
   \<and> (\<forall>r. (Substring, r) \<in> set (executed out) \<longrightarrow>
        r = like_statement db (ustr ''%'' @ str_join (ustr ''%'') tokens @ ustr ''%'') limit active_only)
   \<and> (executed out \<noteq> [] \<longrightarrow>
        returned out = map_sum id (enrich db) (snd (last (executed out))))"
  using assms by (intro conjI; (simp; fail) | auto)

lemma tiers_like1:
  assumes "length tokens = 1"
    and "fts_statement fts db (str_join (ustr '' '') tokens) limit active_only = Inr []"
    and "out = \<lparr> executed = [(Conjunctive, Inr []), (Substring, like_statement db (ustr ''%'' @ str_join (ustr ''%'') tokens @ ustr ''%'') limit active_only)], returned = map_sum id (enrich db) (like_statement db (ustr ''%'' @ str_join (ustr ''%'') tokens @ ustr ''%'') limit active_only) \<rparr>"
  shows "(tokens = [] \<longrightarrow> executed out = [] \<and> returned out = Inr [])
   \<and> (tokens \<noteq> [] \<longrightarrow>
        take 1 (executed out)
          = [(Conjunctive, fts_statement fts db (str_join (ustr '' '') tokens) limit active_only)])
   \<and> List.member [[], [Conjunctive], [Conjunctive, Disjunctive], [Conjunctive, Substring],
                   [Conjunctive, Disjunctive, Substring]] (map fst (executed out))
   \<and> (Disjunctive \<in> set (map fst (executed out)) \<longleftrightarrow>
        (Conjunctive, Inr []) \<in> set (executed out) \<and> 1 < length tokens)
   \<and> (\<forall>r. (Disjunctive, r) \<in> set (executed out) \<longrightarrow>
        r = fts_statement fts db (str_join (ustr '' OR '') tokens) limit active_only)
   \<and> (Substring \<in> set (map fst (executed out)) \<longleftrightarrow>
        executed out \<noteq> []
        \<and> (\<forall>t r. (t, r) \<in> set (executed out) \<and> t \<noteq> Substring \<longrightarrow> r = Inr []))
   \<and> (\<forall>r. (Substring, r) \<in> set (executed out) \<longrightarrow>
        r = like_statement db (ustr ''%'' @ str_join (ustr ''%'') tokens @ ustr ''%'') limit active_only)
   \<and> (executed out \<noteq> [] \<longrightarrow>
        returned out = map_sum id (enrich db) (snd (last (executed out))))"
  using assms by (intro conjI; (simp; fail) | auto)

text \<open>
  C4. \<open>search\<close> runs its three statements in a fixed order and stops at the first that
  fetches a row or raises. A query with no token runs nothing and returns the empty
  result. Otherwise the conjunctive statement (the tokens joined by spaces, given to the
  index) runs first; the disjunctive one (the tokens joined by \<open>OR\<close>) runs exactly when
  the conjunctive one fetched nothing and there is more than one token; the LIKE
  statement (the tokens joined by \<open>%\<close>) runs exactly when every statement before it
  fetched nothing. The call returns or raises what its last statement fetched or raised.
\<close>

theorem search_tiers_short_circuit:
  "\<exists>tokens out.
     normalize_query U (Some q) = Inr tokens
   \<and> out = search_run U fts db (Some q) limit active_only
   \<and> search U fts db (Some q) limit active_only = returned out
   \<and> (\<forall>rs. tokens \<noteq> [] \<and> fts (str_join (ustr '' '') tokens) (ccam_codes db) = Some rs \<longrightarrow>
        (Conjunctive, Inr (sql_limit limit (filter (active_filter active_only) rs)))
          \<in> set (executed out))
   \<and> (tokens \<noteq> [] \<and> fts (str_join (ustr '' '') tokens) (ccam_codes db) = None \<longrightarrow>
        executed out = [(Conjunctive, Inl OperationalError)]
        \<and> returned out = Inl OperationalError)
   \<and> (tokens = [] \<longrightarrow> executed out = [] \<and> returned out = Inr [])
   \<and> (tokens \<noteq> [] \<longrightarrow>
        take 1 (executed out)
          = [(Conjunctive, fts_statement fts db (str_join (ustr '' '') tokens) limit active_only)])
   \<and> List.member [[], [Conjunctive], [Conjunctive, Disjunctive], [Conjunctive, Substring],
                   [Conjunctive, Disjunctive, Substring]] (map fst (executed out))
   \<and> (Disjunctive \<in> set (map fst (executed out)) \<longleftrightarrow>
        (Conjunctive, Inr []) \<in> set (executed out) \<and> 1 < length tokens)
   \<and> (\<forall>r. (Disjunctive, r) \<in> set (executed out) \<longrightarrow>
        r = fts_statement fts db (str_join (ustr '' OR '') tokens) limit active_only)
   \<and> (Substring \<in> set (map fst (executed out)) \<longleftrightarrow>
        executed out \<noteq> []
        \<and> (\<forall>t r. (t, r) \<in> set (executed out) \<and> t \<noteq> Substring \<longrightarrow> r = Inr []))
   \<and> (\<forall>r. (Substring, r) \<in> set (executed out) \<longrightarrow>
        r = like_statement db (ustr ''%'' @ str_join (ustr ''%'') tokens @ ustr ''%'') limit active_only)
   \<and> (executed out \<noteq> [] \<longrightarrow>
        returned out = map_sum id (enrich db) (snd (last (executed out))))"
proof -
  from normalize_query_Some obtain tokens where
    toks: "normalize_query U (Some q) = Inr tokens" by blast
  define out where "out = search_run U fts db (Some q) limit active_only"
  have s: "search U fts db (Some q) limit active_only = returned out"
    by (simp add: search_def out_def)
  from toks have main: "(tokens = [] \<longrightarrow> executed out = [] \<and> returned out = Inr [])
   \<and> (tokens \<noteq> [] \<longrightarrow>
        take 1 (executed out)
          = [(Conjunctive, fts_statement fts db (str_join (ustr '' '') tokens) limit active_only)])
   \<and> List.member [[], [Conjunctive], [Conjunctive, Disjunctive], [Conjunctive, Substring],
                   [Conjunctive, Disjunctive, Substring]] (map fst (executed out))
   \<and> (Disjunctive \<in> set (map fst (executed out)) \<longleftrightarrow>
        (Conjunctive, Inr []) \<in> set (executed out) \<and> 1 < length tokens)
   \<and> (\<forall>r. (Disjunctive, r) \<in> set (executed out) \<longrightarrow>
        r = fts_statement fts db (str_join (ustr '' OR '') tokens) limit active_only)
   \<and> (Substring \<in> set (map fst (executed out)) \<longleftrightarrow>
        executed out \<noteq> []
        \<and> (\<forall>t r. (t, r) \<in> set (executed out) \<and> t \<noteq> Substring \<longrightarrow> r = Inr []))
   \<and> (\<forall>r. (Substring, r) \<in> set (executed out) \<longrightarrow>
        r = like_statement db (ustr ''%'' @ str_join (ustr ''%'') tokens @ ustr ''%'') limit active_only)
   \<and> (executed out \<noteq> [] \<longrightarrow>
        returned out = map_sum id (enrich db) (snd (last (executed out))))"
  proof (cases rule: search_run_cases[where fts = fts and db = db and limit = limit
                                        and active_only = active_only])
    case empty
    then show ?thesis unfolding out_def by (rule tiers_empty)
  next
    case (raise1 e)
    then show ?thesis unfolding out_def by (rule tiers_raise1)
  next
    case (hit1 rs)
    then show ?thesis unfolding out_def by (rule tiers_hit1)
  next
    case (raise2 e)
    then show ?thesis unfolding out_def by (rule tiers_raise2)
  next
    case (hit2 rs)
    then show ?thesis unfolding out_def by (rule tiers_hit2)
  next
    case like2
    then show ?thesis unfolding out_def by (rule tiers_like2)
  next
    case like1
    then show ?thesis unfolding out_def by (rule tiers_like1)
  qed
  from main have first: "tokens \<noteq> [] \<longrightarrow>
        take 1 (executed out)
          = [(Conjunctive, fts_statement fts db (str_join (ustr '' '') tokens) limit active_only)]"
    by (elim conjE)
  have some: "(\<forall>rs. tokens \<noteq> [] \<and> fts (str_join (ustr '' '') tokens) (ccam_codes db) = Some rs \<longrightarrow>
        (Conjunctive, Inr (sql_limit limit (filter (active_filter active_only) rs)))
          \<in> set (executed out))"
  proof (intro allI impI, elim conjE)
    fix rs
    assume ne: "tokens \<noteq> []"
      and f: "fts (str_join (ustr '' '') tokens) (ccam_codes db) = Some rs"
    from f have "fts_statement fts db (str_join (ustr '' '') tokens) limit active_only
              = Inr (sql_limit limit (filter (active_filter active_only) rs))"
      by (simp add: fts_statement_def)
    with first ne have "take 1 (executed out)
        = [(Conjunctive, Inr (sql_limit limit (filter (active_filter active_only) rs)))]"
      by simp
    then show "(Conjunctive, Inr (sql_limit limit (filter (active_filter active_only) rs)))
          \<in> set (executed out)"
      by (metis in_set_takeD list.set_intros(1))
  qed
  have none: "(tokens \<noteq> [] \<and> fts (str_join (ustr '' '') tokens) (ccam_codes db) = None \<longrightarrow>
        executed out = [(Conjunctive, Inl OperationalError)]
        \<and> returned out = Inl OperationalError)"
    using toks by (simp add: out_def search_run_def fts_statement_def Let_def)
  show ?thesis
    by (rule exI[of _ tokens], rule exI[of _ out])
       (rule conjI[OF toks conjI[OF out_def conjI[OF s conjI[OF some conjI[OF none main]]]]])
qed

theorem search_tiers_short_circuit_witness:
  "normalize_query ascii_db (Some (ustr ''acte test'')) = Inr [ustr ''acte'', ustr ''test'']
   \<and> search_run ascii_db ex_fts ex_db_search (Some (ustr ''acte test'')) 10 False = ex_outcome
   \<and> search ascii_db ex_fts ex_db_search (Some (ustr ''acte test'')) 10 False
       = Inr [(ex_expired, 0), (ex_row ex_A, 1)]
   \<and> search_run ascii_db ex_fts ex_db_search (Some (ustr ''acte test'')) 10 True
       = ex_outcome_active
   \<and> search_run ascii_db ex_fts ex_db_search (Some (ustr ''acte test chirurgical'')) 10 False
       = \<lparr> executed = [(Conjunctive, Inr [ex_expired, ex_row ex_A])],
           returned = Inr [(ex_expired, 0), (ex_row ex_A, 1)] \<rparr>
   \<and> map fst (executed ex_outcome) = [Conjunctive, Disjunctive, Substring]
   \<and> (Conjunctive, Inr []) \<in> set (executed ex_outcome)
   \<and> returned ex_outcome = map_sum id (enrich ex_db_search) (snd (last (executed ex_outcome)))"
proof -
  have toks: "normalize_query ascii_db (Some (ustr ''acte test''))
                = Inr [ustr ''acte'', ustr ''test'']"
    by code_simp
  have run: "search_run ascii_db ex_fts ex_db_search (Some (ustr ''acte test'')) 10 False
               = ex_outcome"
    by code_simp
  have act: "search_run ascii_db ex_fts ex_db_search (Some (ustr ''acte test'')) 10 True
               = ex_outcome_active"
    by code_simp
  have hit: "search_run ascii_db ex_fts ex_db_search (Some (ustr ''acte test chirurgical'')) 10 False
       = \<lparr> executed = [(Conjunctive, Inr [ex_expired, ex_row ex_A])],
           returned = Inr [(ex_expired, 0), (ex_row ex_A, 1)] \<rparr>"
    by code_simp
  have ret: "returned ex_outcome = Inr [(ex_expired, 0), (ex_row ex_A, 1)]"
    by (simp add: ex_outcome_def)
  have trace: "map fst (executed ex_outcome) = [Conjunctive, Disjunctive, Substring]"
    by (simp add: ex_outcome_def)
  then have ne: "executed ex_outcome \<noteq> []"
    and dis: "Disjunctive \<in> set (map fst (executed ex_outcome))"
    by auto
  have "search ascii_db ex_fts ex_db_search (Some (ustr ''acte test'')) 10 False
          = returned ex_outcome
     \<and> (Disjunctive \<in> set (map fst (executed ex_outcome)) \<longrightarrow>
          (Conjunctive, Inr []) \<in> set (executed ex_outcome))
     \<and> (executed ex_outcome \<noteq> [] \<longrightarrow>
          returned ex_outcome
            = map_sum id (enrich ex_db_search) (snd (last (executed ex_outcome))))"
    using search_tiers_short_circuit
         [of ascii_db "ustr ''acte test''" ex_fts ex_db_search 10 False]
    unfolding run by (elim exE conjE) simp
  with toks run act hit ret trace ne dis show ?thesis by simp
qed

lemma active_only_Some:
  "(search U fts db (Some q) limit True = Inr res \<longrightarrow> (\<forall>x \<in> set res. cc_date_end (fst x) = None))
   \<and> (\<forall>t rs r. (t, Inr rs) \<in> set (executed (search_run U fts db (Some q) limit True)) \<and> r \<in> set rs
         \<longrightarrow> cc_date_end r = None)
   \<and> (\<forall>r. (Substring, r) \<in> set (executed (search_run U fts db (Some q) limit True)) \<longrightarrow>
         r = Inl OperationalError \<and> search U fts db (Some q) limit True = Inl OperationalError)
   \<and> (normalize_query U (Some q) = Inr tokens \<and> tokens \<noteq> []
        \<and> fts (str_join (ustr '' '') tokens) (ccam_codes db) = Some rs1
        \<and> sql_limit limit (filter (\<lambda>r. cc_date_end r = None) rs1) \<noteq> [] \<longrightarrow>
        search U fts db (Some q) limit True
          = Inr (enrich db (sql_limit limit (filter (\<lambda>r. cc_date_end r = None) rs1))))
   \<and> (normalize_query U (Some q) = Inr tokens \<and> 1 < length tokens
        \<and> fts (str_join (ustr '' '') tokens) (ccam_codes db) = Some rs1
        \<and> sql_limit limit (filter (\<lambda>r. cc_date_end r = None) rs1) = []
        \<and> fts (str_join (ustr '' OR '') tokens) (ccam_codes db) = Some rs2
        \<and> sql_limit limit (filter (\<lambda>r. cc_date_end r = None) rs2) \<noteq> [] \<longrightarrow>
        search U fts db (Some q) limit True
          = Inr (enrich db (sql_limit limit (filter (\<lambda>r. cc_date_end r = None) rs2))))"
proof -
  from normalize_query_Some obtain toks where
    toks: "normalize_query U (Some q) = Inr toks" by blast
  have af: "active_filter True = (\<lambda>r. cc_date_end r = None)"
    by (auto simp: active_filter_def)
  have f: "fts_statement fts db e limit True
             = Inr (sql_limit limit (filter (\<lambda>r. cc_date_end r = None) rs))"
    if "fts e (ccam_codes db) = Some rs" for e rs
    using that by (simp add: fts_statement_def af)
  have en: "cc_date_end (fst x) = None" if "x \<in> set (enrich db rs)"
    "fts_statement fts db e limit True = Inr rs" for x rs e
    using that fts_statement_active[OF that(2)] by (auto simp: enrich_def)
  note act = fts_statement_active[where fts = fts and db = db and limit = limit]
  from toks show ?thesis
  proof (cases rule: search_run_cases[where fts = fts and db = db and limit = limit
                                        and active_only = True])
    case empty
    with toks show ?thesis by (auto simp: search_def)
  next
    case (raise1 e)
    with toks f show ?thesis by (auto simp: search_def)
  next
    case (hit1 rs)
    with toks f en[of _ rs] act[of _ rs] show ?thesis by (auto simp: search_def)
  next
    case (raise2 e)
    with toks f show ?thesis by (auto simp: search_def)
  next
    case (hit2 rs)
    with toks f en[of _ rs] act[of _ rs] show ?thesis by (auto simp: search_def)
  next
    case like2
    with toks f show ?thesis by (auto simp: search_def like_statement_active)
  next
    case like1
    with toks f show ?thesis by (auto simp: search_def like_statement_active)
  qed
qed

text \<open>
  C7. With \<open>active_only\<close> set, whatever \<open>search\<close> returns holds no entry with a
  \<open>date_end\<close>, for every query, limit, index and catalog. The conjunctive and the
  disjunctive statement carry a working \<open>AND cc.date_end IS NULL\<close> and return exactly the
  active matches of the index, up to the limit. The LIKE statement returns nothing under
  \<open>active_only\<close>: its filter names a table the statement does not have, so a call that
  reaches it raises \<open>OperationalError\<close> instead of returning.
\<close>

theorem active_only_excludes_expired:
  "(search U fts db query limit True = Inr res \<longrightarrow> (\<forall>x \<in> set res. cc_date_end (fst x) = None))
   \<and> (\<forall>t rs r. (t, Inr rs) \<in> set (executed (search_run U fts db query limit True)) \<and> r \<in> set rs
         \<longrightarrow> cc_date_end r = None)
   \<and> (\<forall>r. (Substring, r) \<in> set (executed (search_run U fts db query limit True)) \<longrightarrow>
         r = Inl OperationalError \<and> search U fts db query limit True = Inl OperationalError)
   \<and> (normalize_query U query = Inr tokens \<and> tokens \<noteq> []
        \<and> fts (str_join (ustr '' '') tokens) (ccam_codes db) = Some rs1
        \<and> sql_limit limit (filter (\<lambda>r. cc_date_end r = None) rs1) \<noteq> [] \<longrightarrow>
        search U fts db query limit True
          = Inr (enrich db (sql_limit limit (filter (\<lambda>r. cc_date_end r = None) rs1))))
   \<and> (normalize_query U query = Inr tokens \<and> 1 < length tokens
        \<and> fts (str_join (ustr '' '') tokens) (ccam_codes db) = Some rs1
        \<and> sql_limit limit (filter (\<lambda>r. cc_date_end r = None) rs1) = []
        \<and> fts (str_join (ustr '' OR '') tokens) (ccam_codes db) = Some rs2
        \<and> sql_limit limit (filter (\<lambda>r. cc_date_end r = None) rs2) \<noteq> [] \<longrightarrow>
        search U fts db query limit True
          = Inr (enrich db (sql_limit limit (filter (\<lambda>r. cc_date_end r = None) rs2))))"
proof (cases query)
  case None
  then show ?thesis
    by (simp add: search_def search_run_def normalize_query_def)
next
  case (Some q)
  with active_only_Some[of U fts db q limit res tokens rs1 rs2] show ?thesis by simp
qed

theorem active_only_excludes_expired_witness:
  "search ascii_db ex_fts ex_db_search (Some (ustr ''acte test chirurgical'')) 10 True
     = Inr [(ex_row ex_A, 1)]
   \<and> search ascii_db ex_fts ex_db_search (Some (ustr ''acte test chirurgical'')) 10 False
     = Inr [(ex_expired, 0), (ex_row ex_A, 1)]
   \<and> cc_date_end ex_expired \<noteq> None
   \<and> list_all (\<lambda>x. cc_date_end (fst x) = None) [(ex_row ex_A, 1::nat)]
   \<and> executed (search_run ascii_db ex_fts ex_db_search (Some (ustr ''acte test'')) 10 True)
     = [(Conjunctive, Inr []), (Disjunctive, Inr []), (Substring, Inl OperationalError)]
   \<and> search ascii_db ex_fts ex_db_search (Some (ustr ''acte test'')) 10 True
     = Inl OperationalError"
proof -
  have run: "search ascii_db ex_fts ex_db_search (Some (ustr ''acte test chirurgical'')) 10 True
     = Inr [(ex_row ex_A, 1)]"
    by code_simp
  have all: "search ascii_db ex_fts ex_db_search (Some (ustr ''acte test chirurgical'')) 10 False
     = Inr [(ex_expired, 0), (ex_row ex_A, 1)]"
    by code_simp
  have exp: "cc_date_end ex_expired \<noteq> None" by (simp add: ex_expired_def)
  have tr: "executed (search_run ascii_db ex_fts ex_db_search (Some (ustr ''acte test'')) 10 True)
     = [(Conjunctive, Inr []), (Disjunctive, Inr []), (Substring, Inl OperationalError)]"
    by code_simp
  then have sub: "(Substring, Inl OperationalError)
      \<in> set (executed (search_run ascii_db ex_fts ex_db_search (Some (ustr ''acte test'')) 10 True))"
    by simp
  from active_only_excludes_expired
         [where U = ascii_db and fts = ex_fts and db = ex_db_search
            and query = "Some (ustr ''acte test chirurgical'')" and limit = 10
            and res = "[(ex_row ex_A, 1)]"] run
  have a: "\<forall>x \<in> set [(ex_row ex_A, 1::nat)]. cc_date_end (fst x) = None"
    by blast
  from active_only_excludes_expired
         [where U = ascii_db and fts = ex_fts and db = ex_db_search
            and query = "Some (ustr ''acte test'')" and limit = 10] sub
  have b: "search ascii_db ex_fts ex_db_search (Some (ustr ''acte test'')) 10 True
     = Inl OperationalError"
    by blast
  from run all exp a tr b show ?thesis unfolding list_all_iff by blast
qed

section \<open>Properties of the association classifier\<close>

lemma classify_Keep:
  assumes "classify codes si off src a = Keep v"
  shows "va_code v = cand_code a \<and> cand_code a \<noteq> src
     \<and> (\<exists>info. codes (cand_code a) = Some info \<and> ci_active info)
     \<and> (cand_code a \<in> off \<longrightarrow> va_confidence v = Verified)"
  using assms by (auto simp: classify_def Let_def split: if_splits option.splits)

lemma in_kept: "v \<in> set (kept vs) \<longleftrightarrow> Keep v \<in> set vs"
  by (induction vs) (auto simp: kept_def split: verdict.splits)

lemma in_valid_assocs:
  "v \<in> set (valid_assocs db si s al) \<longleftrightarrow>
     (\<exists>a \<in> set al. classify (load_codes db) si (load_official db s) s a = Keep v)"
  by (simp add: valid_assocs_def in_kept image_iff) metis

lemma set_dict_set: "set (dict_set k v d) \<subseteq> insert (k, v) (set d)"
  by (induction k v d rule: dict_set.induct) auto

lemma map_fst_dict_set:
  "map fst (dict_set k v d) = (if k \<in> set (map fst d) then map fst d else map fst d @ [k])"
  by (induction k v d rule: dict_set.induct) auto

lemma distinct_dict_set: "distinct (map fst d) \<Longrightarrow> distinct (map fst (dict_set k v d))"
  by (simp add: map_fst_dict_set)

lemma validate_foldl_inv:
  assumes "\<forall>(s, L) \<in> set acc. \<exists>si al. load_codes db s = Some si \<and> L = sort_valid (valid_assocs db si s al)"
    and "distinct (map fst acc)"
  shows "(\<forall>(s, L) \<in> set (foldl (validate_step db) acc scraped).
            \<exists>si al. load_codes db s = Some si \<and> L = sort_valid (valid_assocs db si s al))
       \<and> distinct (map fst (foldl (validate_step db) acc scraped))"
  using assms
proof (induction scraped arbitrary: acc)
  case Nil
  then show ?case by simp
next
  case (Cons x xs)
  obtain s al where x: "x = (s, al)" by (cases x)
  have "(\<forall>(s, L) \<in> set (validate_step db acc x). \<exists>si al. load_codes db s = Some si \<and> L = sort_valid (valid_assocs db si s al))
      \<and> distinct (map fst (validate_step db acc x))"
  proof (cases "load_codes db s")
    case None
    with Cons.prems x show ?thesis by (simp add: validate_step_def)
  next
    case (Some si)
    show ?thesis
    proof (cases "valid_assocs db si s al = []")
      case True
      with Some Cons.prems x show ?thesis by (simp add: validate_step_def)
    next
      case False
      with Some x have step: "validate_step db acc x = dict_set s (sort_valid (valid_assocs db si s al)) acc"
        by (simp add: validate_step_def)
      have "\<forall>(s', L) \<in> insert (s, sort_valid (valid_assocs db si s al)) (set acc).
              \<exists>si al. load_codes db s' = Some si \<and> L = sort_valid (valid_assocs db si s' al)"
        using Cons.prems(1) Some by auto
      with set_dict_set[of s "sort_valid (valid_assocs db si s al)" acc]
      have "\<forall>(s', L) \<in> set (dict_set s (sort_valid (valid_assocs db si s al)) acc).
              \<exists>si al. load_codes db s' = Some si \<and> L = sort_valid (valid_assocs db si s' al)"
        by blast
      with step distinct_dict_set[OF Cons.prems(2)] show ?thesis by simp
    qed
  qed
  then show ?case using Cons.IH[of "validate_step db acc x"] by simp
qed

lemma validate_entries:
  assumes "(s, L) \<in> set (validate db scraped)"
  shows "\<exists>si al. load_codes db s = Some si \<and> L = sort_valid (valid_assocs db si s al)"
  using validate_foldl_inv[of "[]" db scraped] assms unfolding validate_def by auto

lemma validate_distinct: "distinct (map fst (validate db scraped))"
  using validate_foldl_inv[of "[]" db scraped] unfolding validate_def by simp

lemma set_sort_valid: "set (sort_valid xs) = set xs"
  by (simp add: sort_valid_def)

text \<open>
  C5. The rules are tried in a fixed order and the first that applies decides: a
  self-reference, an unknown code and an expired code are discarded in this order and get
  no confidence. A candidate that is kept and whose code is a target of an authoritative
  edge of the same source code is \<open>verified\<close>, whatever the chapters of the two codes, and
  no other kept candidate is; this holds for one classification and for every entry of
  the classifier's output.
\<close>

theorem verified_precedence:
  "(classify codes source_info official_set source_code assoc = Keep v
      \<and> cand_code assoc \<in> official_set \<longrightarrow> va_confidence v = Verified)
   \<and> (classify codes source_info official_set source_code assoc = Keep v
      \<and> cand_code assoc \<notin> official_set \<longrightarrow> va_confidence v \<noteq> Verified)
   \<and> (cand_code assoc = source_code \<longrightarrow>
        classify codes source_info official_set source_code assoc = SelfReference)
   \<and> (cand_code assoc \<noteq> source_code \<and> codes (cand_code assoc) = None \<longrightarrow>
        classify codes source_info official_set source_code assoc = NotFound)
   \<and> (cand_code assoc \<noteq> source_code \<and> codes (cand_code assoc) = Some info \<and> \<not> ci_active info \<longrightarrow>
        classify codes source_info official_set source_code assoc = Expired)
   \<and> ((source_code, L) \<in> set (validate db scraped) \<and> v \<in> set L
      \<and> va_code v \<in> load_official db source_code \<longrightarrow> va_confidence v = Verified)"
proof -
  have one: "va_confidence v = Verified"
    if "classify codes source_info official_set source_code assoc = Keep v"
       "cand_code assoc \<in> official_set"
    using classify_Keep[OF that(1)] that(2) by simp
  have other: "va_confidence v \<noteq> Verified"
    if "classify codes source_info official_set source_code assoc = Keep v"
       "cand_code assoc \<notin> official_set"
    using that by (auto simp: classify_def Let_def split: if_splits option.splits)
  have discard:
    "cand_code assoc = source_code \<longrightarrow>
        classify codes source_info official_set source_code assoc = SelfReference"
    "cand_code assoc \<noteq> source_code \<and> codes (cand_code assoc) = None \<longrightarrow>
        classify codes source_info official_set source_code assoc = NotFound"
    "cand_code assoc \<noteq> source_code \<and> codes (cand_code assoc) = Some info \<and> \<not> ci_active info \<longrightarrow>
        classify codes source_info official_set source_code assoc = Expired"
    by (simp_all add: classify_def Let_def)
  have two: "va_confidence v = Verified"
    if "(source_code, L) \<in> set (validate db scraped)" "v \<in> set L"
       "va_code v \<in> load_official db source_code"
  proof -
    from validate_entries[OF that(1)] obtain si al where
      L: "L = sort_valid (valid_assocs db si source_code al)" by blast
    with that(2) have "v \<in> set (valid_assocs db si source_code al)"
      by (simp add: set_sort_valid)
    then obtain a where
      "classify (load_codes db) si (load_official db source_code) source_code a = Keep v"
      by (auto simp: in_valid_assocs)
    from classify_Keep[OF this] that(3) show ?thesis by simp
  qed
  from one other discard two show ?thesis by blast
qed

theorem verified_precedence_witness:
  "classify (load_codes ex_db_reverse) ex_info (load_official ex_db_reverse ex_B) ex_B
       \<lparr> cand_code = ex_A, cand_label = None \<rparr> = Keep (ex_valid ex_A Verified)
   \<and> ci_chapter ex_info = cc_chapter_num (ex_row ex_A)
   \<and> validate ex_db_reverse [(ex_B, [\<lparr> cand_code = ex_A, cand_label = None \<rparr>])]
       = [(ex_B, [ex_valid ex_A Verified])]
   \<and> va_confidence (ex_valid ex_A Verified) = Verified"
proof -
  have c: "classify (load_codes ex_db_reverse) ex_info (load_official ex_db_reverse ex_B) ex_B
       \<lparr> cand_code = ex_A, cand_label = None \<rparr> = Keep (ex_valid ex_A Verified)"
    by code_simp
  have ch: "ci_chapter ex_info = cc_chapter_num (ex_row ex_A)"
    by (simp add: ex_info_def ex_row_def)
  have v: "validate ex_db_reverse [(ex_B, [\<lparr> cand_code = ex_A, cand_label = None \<rparr>])]
       = [(ex_B, [ex_valid ex_A Verified])]"
    by code_simp
  have off: "ex_A \<in> load_official ex_db_reverse ex_B" by code_simp
  from verified_precedence
         [where codes = "load_codes ex_db_reverse" and source_info = ex_info
            and official_set = "load_official ex_db_reverse ex_B" and source_code = ex_B
            and assoc = "\<lparr> cand_code = ex_A, cand_label = None \<rparr>"
            and v = "ex_valid ex_A Verified"
            and L = "[ex_valid ex_A Verified]" and db = ex_db_reverse
            and scraped = "[(ex_B, [\<lparr> cand_code = ex_A, cand_label = None \<rparr>])]"]
       c off
  have "va_confidence (ex_valid ex_A Verified) = Verified" by simp
  with c ch v show ?thesis by blast
qed

section \<open>Properties of the integration\<close>

lemma insert_or_ignore_alt:
  "insert_or_ignore r t =
     (if (fa_code r, fa_associated_code r) \<in> (\<lambda>x. (fa_code x, fa_associated_code x)) ` set t
      then t else t @ [r])"
  by (simp add: insert_or_ignore_def list_ex_iff image_iff) metis

lemma distinct_insert_or_ignore:
  "distinct (map (\<lambda>x. (fa_code x, fa_associated_code x)) t) \<Longrightarrow>
   distinct (map (\<lambda>x. (fa_code x, fa_associated_code x)) (insert_or_ignore r t))"
  by (simp add: insert_or_ignore_alt)

lemma fa_code_freq_row_of: "fa_code (freq_row_of s i a) = s"
  by (simp add: freq_row_of_def)

lemma fa_associated_code_freq_row_of: "fa_associated_code (freq_row_of s i a) = va_code a"
  by (simp add: freq_row_of_def)

lemma fa_rank_freq_row_of: "fa_rank (freq_row_of s i a) = int i"
  by (simp add: freq_row_of_def)

lemma foldl_insert_first_new:
  "foldl (\<lambda>t (rank, assoc). insert_or_ignore (freq_row_of s rank assoc) t) t ps
     = t @ map (\<lambda>(i, a). freq_row_of s i a)
             (first_new (fa_associated_code ` {r \<in> set t. fa_code r = s}) ps)"
proof (induction ps arbitrary: t)
  case Nil
  then show ?case by simp
next
  case (Cons p ps)
  obtain i a where p: "p = (i, a)" by (cases p)
  let ?S = "fa_associated_code ` {r \<in> set t. fa_code r = s}"
  show ?case
  proof (cases "va_code a \<in> ?S")
    case True
    then have "insert_or_ignore (freq_row_of s i a) t = t"
      by (auto simp: insert_or_ignore_alt fa_code_freq_row_of fa_associated_code_freq_row_of image_iff)
    with True p Cons.IH[of t] show ?thesis by simp
  next
    case False
    then have ins: "insert_or_ignore (freq_row_of s i a) t = t @ [freq_row_of s i a]"
      by (auto simp: insert_or_ignore_alt fa_code_freq_row_of fa_associated_code_freq_row_of image_iff)
    have "{r \<in> set (t @ [freq_row_of s i a]). fa_code r = s}
            = insert (freq_row_of s i a) {r \<in> set t. fa_code r = s}"
      using fa_code_freq_row_of[of s i a] by auto
    then have S: "fa_associated_code ` {r \<in> set (t @ [freq_row_of s i a]). fa_code r = s}
               = insert (va_code a) ?S"
      by (simp add: fa_associated_code_freq_row_of)
    from False p ins S Cons.IH[of "t @ [freq_row_of s i a]"] show ?thesis by simp
  qed
qed

lemma insert_list_first_new:
  "insert_list s L t = t @ map (\<lambda>(i, a). freq_row_of s i a)
             (first_new (fa_associated_code ` {r \<in> set t. fa_code r = s}) (enumerate 1 L))"
  unfolding insert_list_def by (rule foldl_insert_first_new)


lemma filter_insert_list_other:
  "s' \<noteq> s \<Longrightarrow> filter (\<lambda>r. fa_code r = s') (insert_list s L t) = filter (\<lambda>r. fa_code r = s') t"
  by (simp add: insert_list_first_new filter_map comp_def fa_code_freq_row_of case_prod_beta)

lemma filter_insert_list_same:
  "filter (\<lambda>r. fa_code r = s) t = [] \<Longrightarrow>
   filter (\<lambda>r. fa_code r = s) (insert_list s L t)
     = map (\<lambda>(i, a). freq_row_of s i a) (first_new {} (enumerate 1 L))"
proof -
  assume e: "filter (\<lambda>r. fa_code r = s) t = []"
  then have "fa_associated_code ` {r \<in> set t. fa_code r = s} = {}"
    by (auto simp: filter_empty_conv)
  then have "insert_list s L t = t @ map (\<lambda>(i, a). freq_row_of s i a) (first_new {} (enumerate 1 L))"
    by (simp only: insert_list_first_new)
  moreover have "filter (\<lambda>r. fa_code r = s) (map (\<lambda>(i, a). freq_row_of s i a) xs)
     = map (\<lambda>(i, a). freq_row_of s i a) xs" for xs
    by (induction xs) (auto simp: fa_code_freq_row_of)
  ultimately show ?thesis using e by simp
qed

lemma filter_foldl_other:
  "s \<notin> set (map fst validated) \<Longrightarrow>
   filter (\<lambda>r. fa_code r = s) (foldl (\<lambda>t (s', L). insert_list s' L t) t validated)
     = filter (\<lambda>r. fa_code r = s) t"
proof (induction validated arbitrary: t)
  case Nil
  then show ?case by simp
next
  case (Cons x xs)
  obtain s' L where x: "x = (s', L)" by (cases x)
  with Cons.prems have "s \<noteq> s'" "s \<notin> set (map fst xs)" by auto
  with Cons.IH[of "insert_list s' L t"] x show ?case
    by (simp add: filter_insert_list_other)
qed

lemma filter_foldl_same:
  assumes "distinct (map fst validated)" "(s, L) \<in> set validated"
    "filter (\<lambda>r. fa_code r = s) t = []"
  shows "filter (\<lambda>r. fa_code r = s) (foldl (\<lambda>t (s', L). insert_list s' L t) t validated)
     = map (\<lambda>(i, a). freq_row_of s i a) (first_new {} (enumerate 1 L))"
  using assms
proof (induction validated arbitrary: t)
  case Nil
  then show ?case by simp
next
  case (Cons x xs)
  obtain s' L' where x: "x = (s', L')" by (cases x)
  show ?case
  proof (cases "s' = s")
    case True
    with Cons.prems(1,2) x have L: "L' = L" and notin: "s \<notin> set (map fst xs)"
      by (auto simp: image_iff)
    from filter_foldl_other[OF notin, of "insert_list s L t"]
      filter_insert_list_same[OF Cons.prems(3), of L] x True L
    show ?thesis by simp
  next
    case False
    with Cons.prems x have mem: "(s, L) \<in> set xs" and d: "distinct (map fst xs)" by auto
    from False Cons.prems(3) have "filter (\<lambda>r. fa_code r = s) (insert_list s' L' t) = []"
      by (simp add: filter_insert_list_other)
    from Cons.IH[OF d mem this] x show ?thesis by simp
  qed
qed

lemma distinct_foldl_insert:
  "distinct (map (\<lambda>x. (fa_code x, fa_associated_code x)) t) \<Longrightarrow>
   distinct (map (\<lambda>x. (fa_code x, fa_associated_code x))
     (foldl (\<lambda>t (rank, assoc). insert_or_ignore (freq_row_of s rank assoc) t) t ps))"
  by (induction ps arbitrary: t) (auto simp: distinct_insert_or_ignore)

lemma distinct_integrate_fold:
  "distinct (map (\<lambda>x. (fa_code x, fa_associated_code x)) t) \<Longrightarrow>
   distinct (map (\<lambda>x. (fa_code x, fa_associated_code x))
     (foldl (\<lambda>t (s', L). insert_list s' L t) t validated))"
  by (induction validated arbitrary: t) (auto simp: insert_list_def distinct_foldl_insert)

lemma first_new_subset: "set (first_new S ps) \<subseteq> set ps"
  by (induction S ps rule: first_new.induct) auto

lemma first_new_sorted:
  "sorted_wrt (<) (map fst ps) \<Longrightarrow> sorted_wrt (<) (map fst (first_new S ps))"
proof (induction S ps rule: first_new.induct)
  case (1 seen)
  then show ?case by simp
next
  case (2 seen i a ps)
  then show ?case using first_new_subset[of "insert (va_code a) seen" ps] by auto
qed

lemma first_new_codes:
  "(va_code \<circ> snd) ` set (first_new S ps) = (va_code \<circ> snd) ` set ps - S"
  by (induction S ps rule: first_new.induct) auto

lemma first_new_all:
  "distinct (map (va_code \<circ> snd) ps) \<Longrightarrow> (va_code \<circ> snd) ` set ps \<inter> S = {} \<Longrightarrow> first_new S ps = ps"
  by (induction S ps rule: first_new.induct) auto

lemma first_new_enumerate:
  "first_new S (enumerate n xs)
     = filter (\<lambda>(i, a). va_code a \<notin> S \<union> va_code ` set (take (i - n) xs)) (enumerate n xs)"
proof (induction xs arbitrary: S n)
  case Nil
  then show ?case by simp
next
  case (Cons x xs)
  have tk: "take (i - n) (x # xs) = x # take (i - Suc n) xs"
    if "(i, a) \<in> set (enumerate (Suc n) xs)" for i a
  proof -
    from that have "Suc n \<le> i" by (simp add: in_set_enumerate_eq)
    then obtain k where "i = Suc n + k" using le_Suc_ex by blast
    then show ?thesis by simp
  qed
  show ?case
  proof (cases "va_code x \<in> S")
    case True
    have "filter (\<lambda>(i, a). va_code a \<notin> S \<union> va_code ` set (take (i - n) (x # xs)))
            (enumerate (Suc n) xs)
        = filter (\<lambda>(i, a). va_code a \<notin> S \<union> va_code ` set (take (i - Suc n) xs))
            (enumerate (Suc n) xs)"
      using True by (intro filter_cong refl) (auto simp: tk)
    with True Cons.IH[of S "Suc n"] show ?thesis by simp
  next
    case False
    have "filter (\<lambda>(i, a). va_code a \<notin> S \<union> va_code ` set (take (i - n) (x # xs)))
            (enumerate (Suc n) xs)
        = filter (\<lambda>(i, a). va_code a \<notin> insert (va_code x) S
                                \<union> va_code ` set (take (i - Suc n) xs))
            (enumerate (Suc n) xs)"
      by (intro filter_cong refl) (auto simp: tk)
    with False Cons.IH[of "insert (va_code x) S" "Suc n"] show ?thesis by simp
  qed
qed

lemma in_enumerate_one:
  "(i, a) \<in> set (enumerate 1 L) \<longleftrightarrow> (\<exists>k < length L. i = Suc k \<and> a = L ! k)"
proof
  assume "(i, a) \<in> set (enumerate 1 L)"
  then have "1 \<le> i" "i < length L + 1" "a = L ! (i - 1)"
    by (simp_all add: in_set_enumerate_eq)
  then show "\<exists>k < length L. i = Suc k \<and> a = L ! k"
    by (intro exI[of _ "i - 1"]) simp
next
  assume "\<exists>k < length L. i = Suc k \<and> a = L ! k"
  then obtain k where "k < length L" "i = Suc k" "a = L ! k" by blast
  then show "(i, a) \<in> set (enumerate 1 L)"
    by (simp add: in_set_enumerate_eq)
qed

lemma first_occurrence_ranks:
  "(\<lambda>(i, a). int i) ` set (filter (\<lambda>(i, a). va_code a \<notin> va_code ` set (take (i - 1) L))
                                    (enumerate 1 L))
     = {int (Suc i) | i. i < length L \<and> va_code (L ! i) \<notin> va_code ` set (take i L)}"
  (is "?A = ?B")
proof (intro set_eqI iffI)
  fix x assume "x \<in> ?A"
  then obtain p where p: "p \<in> set (enumerate 1 L)"
      "va_code (snd p) \<notin> va_code ` set (take (fst p - 1) L)" "x = int (fst p)"
    by (auto simp: case_prod_beta)
  from p(1) obtain k where k: "k < length L" "fst p = Suc k" "snd p = L ! k"
    using in_enumerate_one[of "fst p" "snd p" L] by auto
  from p(2) k have "va_code (L ! k) \<notin> va_code ` set (take k L)" by simp
  with k(1,2) p(3) have "x = int (Suc k) \<and> k < length L
       \<and> va_code (L ! k) \<notin> va_code ` set (take k L)" by simp
  then show "x \<in> ?B" by blast
next
  fix x assume "x \<in> ?B"
  then obtain k where k: "x = int (Suc k)" "k < length L"
      "va_code (L ! k) \<notin> va_code ` set (take k L)" by blast
  from k(2) have "(Suc k, L ! k) \<in> set (enumerate 1 L)"
    using in_enumerate_one[of "Suc k" "L ! k" L] by blast
  with k(3) have "(Suc k, L ! k) \<in> set (filter (\<lambda>(i, a). va_code a \<notin> va_code ` set (take (i - 1) L))
                                    (enumerate 1 L))"
    by simp
  then have "(\<lambda>(i, a). int i) (Suc k, L ! k) \<in> ?A" by (rule imageI)
  with k(1) show "x \<in> ?A" by simp
qed

text \<open>
  C2, as stated, fails when the raw list names a code twice: the classifier keeps both
  occurrences, each gets its own rank, and the primary key drops the second row with its
  rank. Three surviving candidates B, B, C for A leave the rows of ranks 1 and 3.
\<close>

theorem duplicate_candidate_rank_gap_counterexample:
  "map (\<lambda>(s, L). (s, map va_code L)) (validate ex_db_catalog ex_scraped_dup)
     = [(ex_A, [ex_B, ex_B, ex_C])]
   \<and> map (\<lambda>r. (fa_code r, fa_associated_code r, fa_rank r))
         (frequent_associations (integrate (validate ex_db_catalog ex_scraped_dup) ex_db_catalog))
     = [(ex_A, ex_B, 1), (ex_A, ex_C, 3)]"
  by code_simp

text \<open>
  C2, amended. For every source code with \<open>N\<close> surviving candidates \<open>L\<close>, the persisted
  rows hold at most one row per ordered pair of codes; the rows of that source code carry
  every code of \<open>L\<close>, their ranks increase in table order (so none repeats) and lie in
  \<open>1..N\<close>; and when the codes of \<open>L\<close> are pairwise distinct the ranks are exactly \<open>1..N\<close>.
  When \<open>L\<close> names a code more than once, the rows of the source code are exactly the rows
  of the first occurrences, in the order of \<open>L\<close>, each with the values and the rank of its
  own position: rank \<open>i + 1\<close> is in the table exactly when no earlier position of \<open>L\<close>
  holds the code of position \<open>i\<close>, so the ranks of the later occurrences are missing.
\<close>

theorem persisted_ranks:
  assumes "(s, L) \<in> set (validate db scraped)"
  shows "distinct (map (\<lambda>r. (fa_code r, fa_associated_code r))
            (frequent_associations (integrate (validate db scraped) db')))
   \<and> sorted_wrt (<) (map fa_rank (filter (\<lambda>r. fa_code r = s)
            (frequent_associations (integrate (validate db scraped) db'))))
   \<and> set (map fa_rank (filter (\<lambda>r. fa_code r = s)
            (frequent_associations (integrate (validate db scraped) db')))) \<subseteq> {1..int (length L)}
   \<and> set (map fa_associated_code (filter (\<lambda>r. fa_code r = s)
            (frequent_associations (integrate (validate db scraped) db')))) = set (map va_code L)
   \<and> (distinct (map va_code L) \<longrightarrow>
        map fa_rank (filter (\<lambda>r. fa_code r = s)
            (frequent_associations (integrate (validate db scraped) db')))
          = map int [1..<Suc (length L)])
   \<and> filter (\<lambda>r. fa_code r = s)
            (frequent_associations (integrate (validate db scraped) db'))
       = map (\<lambda>(i, a). freq_row_of s i a)
           (filter (\<lambda>(i, a). va_code a \<notin> va_code ` set (take (i - 1) L)) (enumerate 1 L))
   \<and> set (map fa_rank (filter (\<lambda>r. fa_code r = s)
            (frequent_associations (integrate (validate db scraped) db'))))
       = {int (Suc i) | i. i < length L \<and> va_code (L ! i) \<notin> va_code ` set (take i L)}"
proof -
  define T where "T = frequent_associations (integrate (validate db scraped) db')"
  define N where "N = first_new {} (enumerate 1 L)"
  have T: "T = foldl (\<lambda>t (s', L). insert_list s' L t) [] (validate db scraped)"
    by (simp add: T_def integrate_def)
  have d: "distinct (map (\<lambda>r. (fa_code r, fa_associated_code r)) T)"
    unfolding T by (rule distinct_integrate_fold) simp
  have R: "filter (\<lambda>r. fa_code r = s) T = map (\<lambda>(i, a). freq_row_of s i a) N"
    unfolding T N_def by (rule filter_foldl_same[OF validate_distinct assms]) simp
  have ranks: "map fa_rank (filter (\<lambda>r. fa_code r = s) T) = map (int \<circ> fst) N"
    by (simp add: R fa_rank_freq_row_of case_prod_beta comp_def)
  have codes: "map fa_associated_code (filter (\<lambda>r. fa_code r = s) T) = map (va_code \<circ> snd) N"
    by (simp add: R fa_associated_code_freq_row_of case_prod_beta comp_def)
  have "sorted_wrt (<) (map fst (enumerate 1 L))"
    unfolding map_fst_enumerate by (rule sorted_wrt_upt)
  then have "sorted_wrt (<) (map fst N)" unfolding N_def by (rule first_new_sorted)
  then have s1: "sorted_wrt (<) (map (int \<circ> fst) N)"
    by (simp add: sorted_wrt_map)
  have sub: "set N \<subseteq> set (enumerate 1 L)" unfolding N_def by (rule first_new_subset)
  have s2: "set (map (int \<circ> fst) N) \<subseteq> {1..int (length L)}"
  proof
    fix x assume "x \<in> set (map (int \<circ> fst) N)"
    then obtain i a where "(i, a) \<in> set N" "x = int i" by auto
    with sub have "1 \<le> i" "i < length L + 1" by (auto simp: in_set_enumerate_eq)
    with \<open>x = int i\<close> show "x \<in> {1..int (length L)}" by simp
  qed
  have n1: "(va_code \<circ> snd) ` set N = (va_code \<circ> snd) ` set (enumerate 1 L)"
    unfolding N_def using first_new_codes[of "{}" "enumerate 1 L"] by simp
  have "snd ` set (enumerate 1 L) = set L"
    using map_snd_enumerate[of 1 L] by (metis set_map)
  then have "(va_code \<circ> snd) ` set (enumerate 1 L) = va_code ` set L"
    by (metis image_comp)
  with n1 have s3: "set (map (va_code \<circ> snd) N) = set (map va_code L)"
    by (simp only: set_map)
  have s4: "distinct (map va_code L) \<longrightarrow> map (int \<circ> fst) N = map int [1..<Suc (length L)]"
  proof
    assume dl: "distinct (map va_code L)"
    have "map (va_code \<circ> snd) (enumerate 1 L) = map va_code L"
      by (simp add: map_map[symmetric] del: map_map)
    with dl have "N = enumerate 1 L" unfolding N_def by (simp add: first_new_all)
    then have "map fst N = [1..<Suc (length L)]" by simp
    then show "map (int \<circ> fst) N = map int [1..<Suc (length L)]"
      by (simp add: map_map[symmetric] del: map_map)
  qed
  have N: "N = filter (\<lambda>(i, a). va_code a \<notin> va_code ` set (take (i - 1) L)) (enumerate 1 L)"
    unfolding N_def using first_new_enumerate[of "{}" 1 L] by simp
  have s5: "filter (\<lambda>r. fa_code r = s) T
       = map (\<lambda>(i, a). freq_row_of s i a)
           (filter (\<lambda>(i, a). va_code a \<notin> va_code ` set (take (i - 1) L)) (enumerate 1 L))"
    using R unfolding N .
  have "set (map (int \<circ> fst) N) = (\<lambda>(i, a). int i) ` set N"
    by (simp add: comp_def case_prod_beta)
  then have s6: "set (map (int \<circ> fst) N)
       = {int (Suc i) | i. i < length L \<and> va_code (L ! i) \<notin> va_code ` set (take i L)}"
    unfolding N by (simp only: first_occurrence_ranks)
  show ?thesis unfolding T_def[symmetric] ranks codes
    by (rule conjI[OF d conjI[OF s1 conjI[OF s2 conjI[OF s3 conjI[OF s4 conjI[OF s5 s6]]]]]])
qed

theorem persisted_ranks_witness:
  "validate ex_db_catalog ex_scraped_dup
     = [(ex_A, [ex_valid ex_B SameChapter, ex_valid ex_B SameChapter, ex_valid ex_C SameChapter])]
   \<and> map fa_rank (filter (\<lambda>r. fa_code r = ex_A)
         (frequent_associations (integrate (validate ex_db_catalog ex_scraped_dup) ex_db_catalog)))
     = [1, 3]
   \<and> distinct (map (\<lambda>r. (fa_code r, fa_associated_code r))
         (frequent_associations (integrate (validate ex_db_catalog ex_scraped_dup) ex_db_catalog)))
   \<and> set (map fa_associated_code (filter (\<lambda>r. fa_code r = ex_A)
         (frequent_associations (integrate (validate ex_db_catalog ex_scraped_dup) ex_db_catalog))))
     = set (map va_code
         [ex_valid ex_B SameChapter, ex_valid ex_B SameChapter, ex_valid ex_C SameChapter])
   \<and> filter (\<lambda>r. fa_code r = ex_A)
         (frequent_associations (integrate (validate ex_db_catalog ex_scraped_dup) ex_db_catalog))
     = [freq_row_of ex_A 1 (ex_valid ex_B SameChapter),
        freq_row_of ex_A 3 (ex_valid ex_C SameChapter)]"
proof -
  have v: "validate ex_db_catalog ex_scraped_dup
     = [(ex_A, [ex_valid ex_B SameChapter, ex_valid ex_B SameChapter, ex_valid ex_C SameChapter])]"
    by code_simp
  then have mem: "(ex_A, [ex_valid ex_B SameChapter, ex_valid ex_B SameChapter,
                           ex_valid ex_C SameChapter])
       \<in> set (validate ex_db_catalog ex_scraped_dup)"
    by simp
  have r: "map fa_rank (filter (\<lambda>r. fa_code r = ex_A)
         (frequent_associations (integrate (validate ex_db_catalog ex_scraped_dup) ex_db_catalog)))
     = [1, 3]"
    by code_simp
  have f: "map (\<lambda>(i, a). freq_row_of ex_A i a)
           (filter (\<lambda>(i, a). va_code a \<notin> va_code ` set (take (i - 1)
                [ex_valid ex_B SameChapter, ex_valid ex_B SameChapter, ex_valid ex_C SameChapter]))
              (enumerate 1
                [ex_valid ex_B SameChapter, ex_valid ex_B SameChapter, ex_valid ex_C SameChapter]))
     = [freq_row_of ex_A 1 (ex_valid ex_B SameChapter),
        freq_row_of ex_A 3 (ex_valid ex_C SameChapter)]"
    by code_simp
  note P = persisted_ranks [OF mem, of ex_db_catalog]
  note P3 = P[THEN conjunct2, THEN conjunct2, THEN conjunct2]
  note P5 = P3[THEN conjunct2, THEN conjunct2]
  show ?thesis
    by (rule conjI[OF v conjI[OF r conjI[OF P[THEN conjunct1] conjI[OF P3[THEN conjunct1]
          trans[OF P5[THEN conjunct1] f]]]]])
qed

section \<open>Properties of the billing plan assembler\<close>

lemma oi_code_item: "oi_code (official_item_of db a) = a_associated_code a"
  by (simp add: official_item_of_def Let_def)

lemma fi_item: "fi_code (frequent_item_of f) = fa_associated_code f" "fi_rank (frequent_item_of f) = fa_rank f"
  by (simp_all add: frequent_item_of_def)

lemma count_list_map: "count_list (map f xs) t = length (filter (\<lambda>x. f x = t) xs)"
  by (induction xs) auto

lemma length_filter_split:
  "length (filter P (filter Q xs)) + length (filter P (filter (\<lambda>x. \<not> Q x) xs)) = length (filter P xs)"
  by (induction xs) auto

lemma length_filter_sort_key: "length (filter P (sort_key k xs)) = length (filter P xs)"
  by (simp add: filter_sort)

lemma set_official_rows: "set (official_rows db c) = {a \<in> set (associations db). a_code a = c}"
  by (auto simp: official_rows_def)

lemma official_rows_target:
  "length (filter (\<lambda>a. a_associated_code a = t) (official_rows db c)) = length (select_assoc db c t)"
  unfolding official_rows_def select_assoc_def length_filter_sort_key
  by (simp add: conj_commute)

lemma sorted_frequent_rows: "sorted (map fa_rank (frequent_rows db c))"
  by (simp add: frequent_rows_def)

lemma set_frequent_rows: "set (frequent_rows db c) = {f \<in> set (frequent_associations db). fa_code f = c}"
  by (auto simp: frequent_rows_def)

text \<open>
  C6, as stated, fails: the association table is keyed by code, target and activity, and
  the assembler lists one item per edge row. On the database the builder makes from a
  sheet where A names B as a gesture in the text column and in the activity-1/2/3 column,
  with B also among the observed associations of A, the plan of A lists B twice among the
  gestures (and not among the frequent associations).
\<close>

theorem target_listed_per_edge_counterexample:
  "map_option (\<lambda>p. (map oi_code (complementary_gestures p), map oi_code (anesthesia_codes p),
                     map fi_code (plan_frequent_associations p)))
       (get_billing_plan ascii_db ex_db_plan ex_A)
     = Some ([ex_B, ex_B], [], [ex_C])
   \<and> map (\<lambda>r. (fa_code r, fa_associated_code r)) (frequent_associations ex_db_plan)
       = [(ex_A, ex_B), (ex_A, ex_C)]
   \<and> map (\<lambda>e. (a_code e, a_associated_code e, a_activity e)) (associations ex_db_plan)
       = [(ex_A, ex_B, ustr ''text''), (ex_A, ex_B, ustr ''act123'')]"
  by code_simp

text \<open>
  C6, amended. For every code for which \<open>get_billing_plan\<close> succeeds, a target is listed
  in the authoritative group (gestures and anesthesia together) once per authoritative
  edge row to it; a target that has an authoritative edge is in the authoritative group
  and never in the frequent group, also when it is among the observed associations; the
  frequent group holds exactly the observed targets without an authoritative edge, shares
  no code with the authoritative group, and is ordered by rank ascending.
\<close>

theorem billing_plan_groups:
  assumes "get_billing_plan U db code0 = Some p"
  shows "(\<forall>t. count_list (map oi_code (complementary_gestures p @ anesthesia_codes p)) t
             = length (select_assoc db (str_upper U code0) t))
     \<and> set (map fi_code (plan_frequent_associations p))
         = {fa_associated_code f | f. f \<in> set (frequent_associations db)
              \<and> fa_code f = str_upper U code0
              \<and> select_assoc db (str_upper U code0) (fa_associated_code f) = []}
     \<and> set (map fi_code (plan_frequent_associations p))
         \<inter> set (map oi_code (complementary_gestures p @ anesthesia_codes p)) = {}
     \<and> (\<forall>t. select_assoc db (str_upper U code0) t \<noteq> [] \<longrightarrow>
            t \<in> set (map oi_code (complementary_gestures p @ anesthesia_codes p))
            \<and> t \<notin> set (map fi_code (plan_frequent_associations p)))
     \<and> sorted (map fi_rank (plan_frequent_associations p))"
proof -
  let ?c = "str_upper U code0"
  let ?an = "\<lambda>a. a_association_type a = ustr ''complementary_anesthesia''"
  let ?off = "set (map a_associated_code (official_rows db ?c))"
  from assms have g: "complementary_gestures p
        = map (official_item_of db) (filter (\<lambda>a. \<not> ?an a) (official_rows db ?c))"
    and an: "anesthesia_codes p = map (official_item_of db) (filter ?an (official_rows db ?c))"
    and fr: "plan_frequent_associations p = map frequent_item_of
        (filter (\<lambda>f. fa_associated_code f \<notin> ?off) (frequent_rows db ?c))"
    by (auto simp: get_billing_plan_def Let_def split: option.splits)
  have offset: "t \<in> ?off \<longleftrightarrow> select_assoc db ?c t \<noteq> []" for t
    by (auto simp: set_official_rows select_assoc_def filter_empty_conv)
  have cnt: "count_list (map oi_code (complementary_gestures p @ anesthesia_codes p)) t
             = length (select_assoc db ?c t)" for t
  proof -
    have "count_list (map oi_code (complementary_gestures p @ anesthesia_codes p)) t
        = length (filter (\<lambda>a. a_associated_code a = t) (filter (\<lambda>a. \<not> ?an a) (official_rows db ?c)))
          + length (filter (\<lambda>a. a_associated_code a = t) (filter ?an (official_rows db ?c)))"
      by (simp add: g an count_list_map comp_def oi_code_item)
    also have "\<dots> = length (filter (\<lambda>a. a_associated_code a = t) (official_rows db ?c))"
      using length_filter_split[of "\<lambda>a. a_associated_code a = t" ?an "official_rows db ?c"] by simp
    finally show ?thesis by (simp add: official_rows_target)
  qed
  have fcodes: "set (map fi_code (plan_frequent_associations p))
         = {fa_associated_code f | f. f \<in> set (frequent_associations db)
              \<and> fa_code f = ?c \<and> select_assoc db ?c (fa_associated_code f) = []}"
    unfolding fr using offset by (auto simp: fi_item set_frequent_rows comp_def image_iff)
  have acodes: "set (map oi_code (complementary_gestures p @ anesthesia_codes p)) = ?off"
    by (auto simp: g an oi_code_item comp_def image_iff)
  have disj: "set (map fi_code (plan_frequent_associations p))
         \<inter> set (map oi_code (complementary_gestures p @ anesthesia_codes p)) = {}"
  proof -
    have "x \<notin> ?off" if "x \<in> set (map fi_code (plan_frequent_associations p))" for x
    proof -
      from that fcodes have "select_assoc db ?c x = []" by auto
      with offset[of x] show ?thesis by simp
    qed
    with acodes show ?thesis by blast
  qed
  have "sorted (map fa_rank (filter (\<lambda>f. fa_associated_code f \<notin> ?off) (frequent_rows db ?c)))"
    using sorted_frequent_rows[of db ?c] by (rule sorted_filter)
  then have srt: "sorted (map fi_rank (plan_frequent_associations p))"
    by (simp add: fr comp_def fi_item)
  have both: "t \<in> set (map oi_code (complementary_gestures p @ anesthesia_codes p))
            \<and> t \<notin> set (map fi_code (plan_frequent_associations p))"
    if "select_assoc db ?c t \<noteq> []" for t
  proof -
    from that offset[of t] acodes
    have "t \<in> set (map oi_code (complementary_gestures p @ anesthesia_codes p))" by simp
    with disj show ?thesis by blast
  qed
  from cnt fcodes disj both srt show ?thesis by blast
qed

theorem billing_plan_groups_witness:
  "\<exists>p. get_billing_plan ascii_db ex_db_plan ex_A = Some p
     \<and> count_list (map oi_code (complementary_gestures p @ anesthesia_codes p)) ex_B = 2
     \<and> ex_B \<in> set (map oi_code (complementary_gestures p @ anesthesia_codes p))
     \<and> ex_B \<notin> set (map fi_code (plan_frequent_associations p))
     \<and> sorted (map fi_rank (plan_frequent_associations p))"
proof -
  have "get_billing_plan ascii_db ex_db_plan ex_A \<noteq> None" by code_simp
  then obtain p where p: "get_billing_plan ascii_db ex_db_plan ex_A = Some p" by blast
  have up: "str_upper ascii_db ex_A = ex_A" by code_simp
  have two: "length (select_assoc ex_db_plan ex_A ex_B) = 2" by code_simp
  then have ne: "select_assoc ex_db_plan ex_A ex_B \<noteq> []" by auto
  from billing_plan_groups [OF p] up two ne
  have "count_list (map oi_code (complementary_gestures p @ anesthesia_codes p)) ex_B = 2
     \<and> ex_B \<in> set (map oi_code (complementary_gestures p @ anesthesia_codes p))
     \<and> ex_B \<notin> set (map fi_code (plan_frequent_associations p))
     \<and> sorted (map fi_rank (plan_frequent_associations p))"
    by simp
  with p show ?thesis by blast
qed

end
